theory Spec2Isabelle
  imports Main "HOL-Library.Word" "HOL-Library.Char_ord" "HOL-Library.List_Lexorder"
    "HOL-Library.Multiset"
begin

unbundle bit_operations_syntax

section \<open>Data model of main.cpp\<close>

text \<open>
  \<^verbatim>\<open>#define BUFLEN 4096\<close>: the size of every transfer buffer.
\<close>

definition BUFLEN :: nat where
  "BUFLEN = 4096"

text \<open>
  \<^verbatim>\<open>class DirEntry\<close>. An entry made by \<^verbatim>\<open>DirEntry()\<close> is
  value-initialised: the strings are empty, the numbers are zero and \<^verbatim>\<open>isDir_\<close> is false.
  A member such as \<^verbatim>\<open>name_\<close> is written \<open>name_'\<close> here and in the other
  records, since a constant's name cannot end in an underscore.
\<close>

record DirEntry =
  name_' :: string
  size_' :: "64 word"
  modified_' :: "64 word"
  mode_' :: "64 word"
  mode_str_' :: string
  owner_' :: string
  group_' :: string
  isDir_' :: bool

definition DirEntry_new :: DirEntry where
  "DirEntry_new = \<lparr>name_' = [], size_' = 0, modified_' = 0, mode_' = 0, mode_str_' = [],
     owner_' = [], group_' = [], isDir_' = False\<rparr>"

text \<open>
  The exception classes of the program. Each carries \<^verbatim>\<open>remote_path_\<close>, except
  \<^verbatim>\<open>ConnectionError\<close>, which carries \<^verbatim>\<open>msg_\<close>. \<open>StdException\<close> stands for any
  other \<^verbatim>\<open>std::exception\<close>, with its \<^verbatim>\<open>what()\<close>.
\<close>

datatype failure =
    DownloadFailed string
  | DownloadFailedPermission string
  | UploadFailed string
  | UploadFailedPermission string
  | UploadFailedSpace string
  | DirListFailedPermission string
  | FileNotFound string
  | ConnectionError string
  | StdException string

text \<open>
  What the transport library (libssh2) reports after a failed call:
  \<^verbatim>\<open>libssh2_session_last_errno\<close>, \<^verbatim>\<open>libssh2_sftp_last_error\<close> and the
  message of \<^verbatim>\<open>libssh2_session_last_error\<close> (read by \<^verbatim>\<open>GetLastErrorMsg\<close>).
  The numeric constants are those of the library's headers.
\<close>

record last_error =
  session_errno :: int
  sftp_error :: nat
  errmsg :: string

definition LIBSSH2_ERROR_SFTP_PROTOCOL :: int where
  "LIBSSH2_ERROR_SFTP_PROTOCOL = - 31"

definition LIBSSH2_FX_NO_SUCH_FILE :: nat where
  "LIBSSH2_FX_NO_SUCH_FILE = 2"

definition LIBSSH2_FX_PERMISSION_DENIED :: nat where
  "LIBSSH2_FX_PERMISSION_DENIED = 3"

definition LIBSSH2_FX_NO_SUCH_PATH :: nat where
  "LIBSSH2_FX_NO_SUCH_PATH = 10"

definition LIBSSH2_FX_WRITE_PROTECT :: nat where
  "LIBSSH2_FX_WRITE_PROTECT = 12"

definition LIBSSH2_FX_NO_MEDIA :: nat where
  "LIBSSH2_FX_NO_MEDIA = 13"

definition LIBSSH2_FX_NO_SPACE_ON_FILESYSTEM :: nat where
  "LIBSSH2_FX_NO_SPACE_ON_FILESYSTEM = 14"

section \<open>SftpConnection::UploadFile\<close>

text \<open>
  The two library calls of \<^verbatim>\<open>UploadFile\<close> are the environment of the model.
  \<^verbatim>\<open>libssh2_sftp_open\<close> either yields a handle (the remote file is then empty, since it
  is opened with \<^verbatim>\<open>LIBSSH2_FXF_TRUNC\<close>) or fails. Each call of
  \<^verbatim>\<open>libssh2_sftp_write(handle, buffer, count)\<close> either fails or appends a prefix of
  the \<^verbatim>\<open>count\<close> bytes at \<^verbatim>\<open>buffer\<close> to the remote file and returns its length;
  \<open>Accepts k\<close> is a call on which the server takes at most \<open>k\<close> bytes.
\<close>

datatype open_reply = OpenOk | OpenFails last_error

datatype write_reply = Accepts nat | WriteFails last_error

definition upload_open_failure :: "string \<Rightarrow> last_error \<Rightarrow> failure" where
  "upload_open_failure remote_dst_path le =
     (if session_errno le = LIBSSH2_ERROR_SFTP_PROTOCOL then
        (if sftp_error le = LIBSSH2_FX_PERMISSION_DENIED \<or> sftp_error le = LIBSSH2_FX_WRITE_PROTECT
         then UploadFailedPermission remote_dst_path
         else if sftp_error le = LIBSSH2_FX_NO_SPACE_ON_FILESYSTEM
         then UploadFailedSpace remote_dst_path
         else UploadFailed remote_dst_path)
      else ConnectionError (errmsg le))"

definition upload_write_failure :: "string \<Rightarrow> last_error \<Rightarrow> failure" where
  "upload_write_failure remote_dst_path le =
     (if session_errno le = LIBSSH2_ERROR_SFTP_PROTOCOL then
        (if sftp_error le = LIBSSH2_FX_NO_SPACE_ON_FILESYSTEM
         then UploadFailedSpace remote_dst_path
         else UploadFailed remote_dst_path)
      else ConnectionError (''libssh2_sftp_write failed. '' @ errmsg le))"

text \<open>
  The inner loop \<^verbatim>\<open>while (nread) { rc = libssh2_sftp_write(handle, buf, rc); ... p += rc;
  nread -= rc; }\<close>. The call passes \<^verbatim>\<open>buf\<close> and \<^verbatim>\<open>rc\<close>: the start of the buffer
  and the count the previous call returned (at first the count \<^verbatim>\<open>fread\<close> returned). The
  pointer \<^verbatim>\<open>p\<close> is advanced and never read, so it has no place in the state. The loop
  ends when \<^verbatim>\<open>nread\<close> is exactly zero; the replies of the server are consumed one per
  call, and \<open>None\<close> is a loop that is still running when they are used up.
  The result is the remote file's content and the replies left.
\<close>

fun write_chunk ::
  "write_reply list \<Rightarrow> string \<Rightarrow> string \<Rightarrow> int \<Rightarrow> int \<Rightarrow> string
     \<Rightarrow> (failure + string \<times> write_reply list) option" where
  "write_chunk [] remote_dst_path buf rc nread remote =
     (if nread = 0 then Some (Inr (remote, [])) else None)"
| "write_chunk (r # rs) remote_dst_path buf rc nread remote =
     (if nread = 0 then Some (Inr (remote, r # rs))
      else case r of
        WriteFails le \<Rightarrow> Some (Inl (upload_write_failure remote_dst_path le))
      | Accepts k \<Rightarrow>
          (let rc' = min k (nat rc)
           in write_chunk rs remote_dst_path buf (int rc') (nread - int rc')
                (remote @ take rc' buf)))"

text \<open>
  The outer loop: \<^verbatim>\<open>fread\<close> fills \<^verbatim>\<open>buf\<close> with the next at most \<^verbatim>\<open>BUFLEN\<close>
  bytes of the local file; an empty read ends the copy. Every write takes at most as
  many bytes as were read, so the bytes of \<^verbatim>\<open>buf\<close> beyond them are never sent and
  the buffer is modelled by the bytes read.
\<close>

function upload_loop ::
  "write_reply list \<Rightarrow> string \<Rightarrow> string \<Rightarrow> string \<Rightarrow> (failure + string) option" where
  "upload_loop replies remote_dst_path local remote =
     (let buf = take BUFLEN local; rc = int (length buf)
      in if rc > 0 then
           (case write_chunk replies remote_dst_path buf rc rc remote of
              None \<Rightarrow> None
            | Some (Inl e) \<Rightarrow> Some (Inl e)
            | Some (Inr (remote', replies')) \<Rightarrow>
                upload_loop replies' remote_dst_path (drop BUFLEN local) remote')
         else Some (Inr remote))"
  by pat_completeness auto
termination
  by (relation "measure (\<lambda>(replies, remote_dst_path, local, remote). length local)")
     (auto simp: BUFLEN_def)

definition UploadFile ::
  "open_reply \<Rightarrow> write_reply list \<Rightarrow> string \<Rightarrow> string \<Rightarrow> (failure + string) option" where
  "UploadFile opened replies local remote_dst_path =
     (case opened of
        OpenFails le \<Rightarrow> Some (Inl (upload_open_failure remote_dst_path le))
      | OpenOk \<Rightarrow> upload_loop replies remote_dst_path local [])"

section \<open>normalize_path\<close>

text \<open>
  \<^verbatim>\<open>getline(s, segment, delim)\<close> on the rest \<open>s\<close> of a string stream: it fails at
  the end of the stream, and otherwise yields the characters before the next delimiter
  and leaves the stream after that delimiter (or at its end).
\<close>

definition getline :: "char \<Rightarrow> string \<Rightarrow> (string \<times> string) option" where
  "getline delim s =
     (if s = [] then None
      else Some (takeWhile (\<lambda>c. c \<noteq> delim) s, drop 1 (dropWhile (\<lambda>c. c \<noteq> delim) s)))"

lemma getline_rest_shorter:
  "s \<noteq> [] \<Longrightarrow> length (dropWhile P s) - Suc 0 < length s"
  using length_dropWhile_le [of P s] by (cases s) auto

text \<open>
  The segments that the loop \<^verbatim>\<open>while (getline(s, segment, delim))\<close> sees, in order.
\<close>

function segments :: "char \<Rightarrow> string \<Rightarrow> string list" where
  "segments delim s =
     (case getline delim s of
        None \<Rightarrow> []
      | Some (segment, rest) \<Rightarrow> segment # segments delim rest)"
  by pat_completeness auto
termination
  by (relation "measure (\<lambda>(delim, s). length s)")
     (auto simp: getline_def getline_rest_shorter split: if_splits)

declare segments.simps [simp del]

text \<open>\<^verbatim>\<open>replace(path.begin(), path.end(), old, new)\<close>.\<close>

definition replace_chars :: "char \<Rightarrow> char \<Rightarrow> string \<Rightarrow> string" where
  "replace_chars old new path = map (\<lambda>c. if c = old then new else c) path"

text \<open>
  The body of the segment loop of \<^verbatim>\<open>normalize_path\<close>, run over the segments with the
  vector \<^verbatim>\<open>parts\<close> as accumulator.
\<close>

fun normalize_parts :: "string list \<Rightarrow> string list \<Rightarrow> string list" where
  "normalize_parts [] parts = parts"
| "normalize_parts (segment # rest) parts =
     (if segment = [] \<or> segment = ''.'' then normalize_parts rest parts
      else if segment = ''..'' then
        (if parts \<noteq> [] then normalize_parts rest (butlast parts)
         else normalize_parts rest parts)
      else normalize_parts rest (parts @ [segment]))"

text \<open>
  The loop that builds \<^verbatim>\<open>r\<close>: every part is preceded by a slash, except a first part
  that looks like a Windows drive letter.
\<close>

definition join_parts :: "string list \<Rightarrow> string" where
  "join_parts parts =
     foldl (\<lambda>r i.
        (if i = 0 \<and> length (parts ! 0) = 2 \<and> parts ! 0 ! 1 = CHR '':'' then r
         else r @ ''/'') @ parts ! i) [] [0..<length parts]"

text \<open>The vector \<^verbatim>\<open>parts\<close> at the end of the segment loop.\<close>

definition path_parts :: "string \<Rightarrow> string list" where
  "path_parts path =
     normalize_parts (segments CHR ''/'' (replace_chars (CHR 0x5C) CHR ''/'' path)) []"

definition normalize_path :: "string \<Rightarrow> string" where
  "normalize_path path =
     (let r = join_parts (path_parts path)
      in if r = [] then ''/'' else r)"

section \<open>SftpConnection::GetDir\<close>

text \<open>
  The fields of \<^verbatim>\<open>LIBSSH2_SFTP_ATTRIBUTES\<close> that \<^verbatim>\<open>GetDir\<close> reads, and the flag and
  file-type bits it tests (constants of the library's and the system's headers).
\<close>

record sftp_attributes =
  flags :: "64 word"
  filesize :: "64 word"
  permissions :: "64 word"
  mtime :: "64 word"

definition LIBSSH2_SFTP_ATTR_SIZE :: "64 word" where
  "LIBSSH2_SFTP_ATTR_SIZE = 1"

definition LIBSSH2_SFTP_ATTR_PERMISSIONS :: "64 word" where
  "LIBSSH2_SFTP_ATTR_PERMISSIONS = 4"

definition LIBSSH2_SFTP_ATTR_ACMODTIME :: "64 word" where
  "LIBSSH2_SFTP_ATTR_ACMODTIME = 8"

definition S_IFDIR :: "64 word" where
  "S_IFDIR = 0x4000"

text \<open>
  The replies of the library. \<^verbatim>\<open>libssh2_sftp_opendir\<close> yields a handle or fails.
  A call of \<^verbatim>\<open>libssh2_sftp_readdir_ex\<close> returns \<^verbatim>\<open>LIBSSH2_ERROR_EAGAIN\<close>, another
  negative code, or the length of the entry's name, with the name and the long-listing
  line written into the zeroed buffers and the attributes filled in. \<open>ReaddirEntry\<close> is
  such a reply, with the bytes of the name and of the line: the value returned is the
  length of the name, so an entry whose name is empty returns 0, as the end of the
  directory does. The program reads the buffers as C strings, up to the first NUL. The
  replies of one listing are a list; when it is used up, the directory is at its end
  and the call returns 0.
\<close>

datatype opendir_reply = OpendirOk | OpendirFails last_error

datatype readdir_reply =
    ReaddirAgain
  | ReaddirFails last_error
  | ReaddirEntry string string sftp_attributes

definition c_string :: "string \<Rightarrow> string" where
  "c_string buffer = takeWhile (\<lambda>c. c \<noteq> CHR 0x00) buffer"

definition opendir_failure :: "string \<Rightarrow> last_error \<Rightarrow> failure" where
  "opendir_failure path le =
     (if session_errno le = LIBSSH2_ERROR_SFTP_PROTOCOL \<and>
         sftp_error le = LIBSSH2_FX_PERMISSION_DENIED
      then DirListFailedPermission path
      else if session_errno le = LIBSSH2_ERROR_SFTP_PROTOCOL \<and>
         (sftp_error le = LIBSSH2_FX_NO_SUCH_PATH \<or> sftp_error le = LIBSSH2_FX_NO_SUCH_FILE \<or>
          sftp_error le = LIBSSH2_FX_NO_MEDIA)
      then FileNotFound path
      else ConnectionError (''libssh2_sftp_opendir failed. '' @ errmsg le))"

text \<open>
  The loop over the segments of the free text line, with \<^verbatim>\<open>field_num\<close> and the entry
  \<^verbatim>\<open>d\<close> as state. The \<^verbatim>\<open>break\<close> leaves the loop with the entry as it is.
\<close>

fun parse_line :: "string list \<Rightarrow> int \<Rightarrow> DirEntry \<Rightarrow> DirEntry" where
  "parse_line [] field_num d = d"
| "parse_line (segment # rest) field_num d =
     (if segment = [] then parse_line rest field_num d
      else if field_num = 0 \<and> length segment \<noteq> 10 then d
      else
        (let d1 = (if field_num = 0 then d\<lparr>mode_str_' := segment\<rparr> else d);
             d2 = (if field_num = 2 then d1\<lparr>owner_' := segment\<rparr> else d1);
             d3 = (if field_num = 3 then d2\<lparr>group_' := segment\<rparr> else d2)
         in parse_line rest (field_num + 1) d3))"

text \<open>
  The entry that one turn of the reading loop builds (for a name other than \<open>.\<close>)
  from the name and the line as C strings: the attributes the server supplied, then the
  fields of the line.
\<close>

definition dir_entry :: "string \<Rightarrow> string \<Rightarrow> sftp_attributes \<Rightarrow> DirEntry" where
  "dir_entry name line attrs =
     (let d = DirEntry_new\<lparr>name_' := name\<rparr>;
          d = (if flags attrs AND LIBSSH2_SFTP_ATTR_SIZE \<noteq> 0
               then d\<lparr>size_' := filesize attrs\<rparr> else d);
          d = (if flags attrs AND LIBSSH2_SFTP_ATTR_ACMODTIME \<noteq> 0
               then d\<lparr>modified_' := mtime attrs\<rparr> else d);
          d = (if flags attrs AND LIBSSH2_SFTP_ATTR_PERMISSIONS \<noteq> 0
               then d\<lparr>mode_' := permissions attrs,
                      isDir_' := (permissions attrs AND S_IFDIR \<noteq> 0)\<rparr> else d)
      in parse_line (segments CHR '' '' line) 0 d)"

fun readdir_loop :: "readdir_reply list \<Rightarrow> DirEntry list \<Rightarrow> failure + DirEntry list" where
  "readdir_loop [] files = Inr files"
| "readdir_loop (ReaddirAgain # replies) files = readdir_loop replies files"
| "readdir_loop (ReaddirFails le # replies) files =
     Inl (ConnectionError (''libssh2_sftp_readdir_ex failed. '' @ errmsg le))"
| "readdir_loop (ReaddirEntry name line attrs # replies) files =
     (if int (length name) = 0 then Inr files
      else if c_string name = ''.'' then readdir_loop replies files
      else readdir_loop replies (files @ [dir_entry (c_string name) (c_string line) attrs]))"

definition GetDir :: "opendir_reply \<Rightarrow> readdir_reply list \<Rightarrow> string \<Rightarrow> failure + DirEntry list" where
  "GetDir opened replies path =
     (case opened of
        OpendirFails le \<Rightarrow> Inl (opendir_failure path le)
      | OpendirOk \<Rightarrow> readdir_loop replies [])"

text \<open>
  The replies that the loop reads: those before the first entry with an empty name.
\<close>

fun ends_listing :: "readdir_reply \<Rightarrow> bool" where
  "ends_listing (ReaddirEntry name line attrs) = (name = [])"
| "ends_listing r = False"

definition replies_read :: "readdir_reply list \<Rightarrow> readdir_reply list" where
  "replies_read replies = takeWhile (\<lambda>r. \<not> ends_listing r) replies"

text \<open>
  The entries that replies carry, in the order of the replies, with the name and the
  line as C strings.
\<close>

fun reply_entries :: "readdir_reply list \<Rightarrow> (string \<times> string \<times> sftp_attributes) list" where
  "reply_entries [] = []"
| "reply_entries (ReaddirEntry name line attrs # replies) =
     (c_string name, c_string line, attrs) # reply_entries replies"
| "reply_entries (r # replies) = reply_entries replies"

fun is_ReaddirFails :: "readdir_reply \<Rightarrow> bool" where
  "is_ReaddirFails (ReaddirFails le) = True"
| "is_ReaddirFails r = False"

text \<open>
  The listing in closed form: the entry of every reply read with a name other than
  \<open>.\<close>, in the order of the replies.
\<close>

definition listed_entries :: "readdir_reply list \<Rightarrow> DirEntry list" where
  "listed_entries replies =
     map (\<lambda>(name, line, attrs). dir_entry name line attrs)
       (filter (\<lambda>(name, line, attrs). name \<noteq> ''.'') (reply_entries (replies_read replies)))"

text \<open>
  The tokens of a line as the parser sees them: the non-empty segments between space
  characters.
\<close>

definition line_tokens :: "string \<Rightarrow> string list" where
  "line_tokens line = filter (\<lambda>segment. segment \<noteq> []) (segments CHR '' '' line)"

text \<open>
  The tokens of a line in the words of the specification: the line is split on
  whitespace (space, tab, line feed, vertical tab, form feed, carriage return) and the
  empty tokens are discarded.
\<close>

definition is_whitespace :: "char \<Rightarrow> bool" where
  "is_whitespace c = (c \<in> {CHR '' '', CHR 0x09, CHR 0x0A, CHR 0x0B, CHR 0x0C, CHR 0x0D})"

fun whitespace_split :: "string \<Rightarrow> string \<Rightarrow> string list" where
  "whitespace_split token [] = (if token = [] then [] else [token])"
| "whitespace_split token (c # cs) =
     (if is_whitespace c
      then (if token = [] then whitespace_split [] cs else token # whitespace_split [] cs)
      else whitespace_split (token @ [c]) cs)"

definition spec_tokens :: "string \<Rightarrow> string list" where
  "spec_tokens line = whitespace_split [] line"

section \<open>The worker thread: sftpThreadFunc\<close>

text \<open>
  The messages that the frame puts on the channel (the \<^verbatim>\<open>SftpThreadCmd...\<close> structs),
  and the events the thread posts back: an event id with one of the
  \<^verbatim>\<open>SftpThreadResponse...\<close> structs as payload, or none.
\<close>

datatype Command =
    SftpThreadCmdShutdown
  | SftpThreadCmdConnect string string int
  | SftpThreadCmdPassword string
  | SftpThreadCmdGetDir string
  | SftpThreadCmdDownload string string
  | SftpThreadCmdUpload string string



























section \<open>The frame: reconnect timer and file watcher\<close>

text \<open>\<^verbatim>\<open>struct OpenedFile\<close>; a \<^verbatim>\<open>file_time_type\<close> is a point on an integer clock.\<close>

record OpenedFile =
  local_path :: string
  remote_path :: string
  modified :: int
  upload_requested :: bool

definition OpenedFile_new :: OpenedFile where
  "OpenedFile_new = \<lparr>local_path = [], remote_path = [], modified = 0, upload_requested = False\<rparr>"

text \<open>A \<^verbatim>\<open>wxTimer\<close>: whether it runs, and the interval in milliseconds it was started with.\<close>

record wxTimer =
  running :: bool
  interval :: int

text \<open>
  The members of \<^verbatim>\<open>SftpguiFrame\<close> that the reconnect timer, the callbacks for a
  connection and for a connection error, and the file watcher read or write. \<^verbatim>\<open>opened_files_local_\<close> is a
  \<^verbatim>\<open>std::map\<close>: a list of pairs in the order of the keys. The channel is the queue
  of the messages put and not yet taken; \<open>status_text\<close> is the text last given to
  \<^verbatim>\<open>SetStatusText\<close> and \<open>busy\<close> is \<^verbatim>\<open>wxIsBusy()\<close>.
\<close>

record SftpguiFrame =
  username_' :: string
  host_' :: string
  port_' :: int
  current_dir_' :: string
  stored_highlighted_' :: string
  stored_selected_' :: "string set"
  opened_files_local_' :: "(string \<times> OpenedFile) list"
  sftp_thread_channel_' :: "Command list"
  reconnect_timer_' :: wxTimer
  reconnect_timer_countdown_' :: int
  reconnect_timer_error_' :: string
  status_text :: string
  busy :: bool

text \<open>\<^verbatim>\<open>toupper\<close> (in the C locale) and \<^verbatim>\<open>prettifySentence\<close>.\<close>

definition toupper :: "char \<Rightarrow> char" where
  "toupper c =
     (if CHR ''a'' \<le> c \<and> c \<le> CHR ''z'' then char_of (of_char c - (32::nat)) else c)"

definition prettifySentence :: "string \<Rightarrow> string" where
  "prettifySentence s =
     (let s1 = (if length s > 0 then toupper (s ! 0) # tl s else s)
      in if length s1 > 0 \<and> s1 ! (length s1 - 1) \<noteq> CHR ''.'' then s1 @ ''.'' else s1)"







text \<open>
  \<^verbatim>\<open>opened_files_local_[key]\<close> used to change an entry: \<^verbatim>\<open>operator[]\<close> inserts
  a default entry at its place in the key order when the key is absent.
\<close>

fun map_modify ::
  "string \<Rightarrow> (OpenedFile \<Rightarrow> OpenedFile) \<Rightarrow> (string \<times> OpenedFile) list \<Rightarrow> (string \<times> OpenedFile) list" where
  "map_modify key g [] = [(key, g OpenedFile_new)]"
| "map_modify key g ((k, v) # m) =
     (if key = k then (k, g v) # m
      else if key < k then (key, g OpenedFile_new) # (k, v) # m
      else (k, v) # map_modify key g m)"

definition map_index :: "(string \<times> OpenedFile) list \<Rightarrow> string \<Rightarrow> OpenedFile" where
  "map_index m key = (case map_of m key of Some v \<Rightarrow> v | None \<Rightarrow> OpenedFile_new)"

definition UploadWatchedFile :: "string \<Rightarrow> SftpguiFrame \<Rightarrow> SftpguiFrame" where
  "UploadWatchedFile remote_path' frame =
     (let m = map_modify remote_path' (\<lambda>v. v) (opened_files_local_' frame);
          f = map_index m remote_path'
      in frame\<lparr>sftp_thread_channel_' := sftp_thread_channel_' frame @
                  [SftpThreadCmdUpload (local_path f) (remote_path f)],
               busy := True,
               opened_files_local_' :=
                  map_modify (remote_path f) (\<lambda>v. v\<lparr>upload_requested := True\<rparr>) m,
               status_text := ''Uploading '' @ remote_path f @ '' ...''\<rparr>)"

text \<open>
  The loop of \<^verbatim>\<open>OnFileWatcherTimer\<close> walks the map as it is at each moment: it
  starts at the first entry and moves from the entry with one key to the entry with the
  next greater key, also when \<^verbatim>\<open>UploadWatchedFile\<close> has inserted entries meanwhile.
  \<open>position\<close> is the key the loop stands on (none before the first turn).
\<close>

definition next_entry ::
  "string option \<Rightarrow> (string \<times> OpenedFile) list \<Rightarrow> (string \<times> OpenedFile) option" where
  "next_entry position m =
     (case position of
        None \<Rightarrow> (case m of [] \<Rightarrow> None | e # rest \<Rightarrow> Some e)
      | Some key \<Rightarrow> find (\<lambda>(k, v). key < k) m)"

text \<open>
  \<open>last_write_time\<close> is the file system: it gives the time of a local path, or
  nothing where \<^verbatim>\<open>std::filesystem::last_write_time\<close> throws. That exception leaves
  the handler and ends the main loop (\<open>Thrown\<close>); \<open>Done\<close> is the frame when the handler
  returns. A loop that does not end has no result.
\<close>

datatype tick_result = Thrown | Done SftpguiFrame

partial_function (option) watch_loop ::
  "(string \<Rightarrow> int option) \<Rightarrow> string option \<Rightarrow> SftpguiFrame \<Rightarrow> tick_result option" where
  "watch_loop last_write_time position frame =
     (case next_entry position (opened_files_local_' frame) of
        None \<Rightarrow> Some (Done frame)
      | Some (key, f) \<Rightarrow>
          (if upload_requested f then watch_loop last_write_time (Some key) frame
           else case last_write_time (local_path f) of
                  None \<Rightarrow> Some Thrown
                | Some time \<Rightarrow>
                    (if time > modified f
                     then watch_loop last_write_time (Some key)
                            (UploadWatchedFile (remote_path f) frame)
                     else watch_loop last_write_time (Some key) frame)))"

definition OnFileWatcherTimer ::
  "(string \<Rightarrow> int option) \<Rightarrow> SftpguiFrame \<Rightarrow> tick_result option" where
  "OnFileWatcherTimer last_write_time frame = watch_loop last_write_time None frame"

text \<open>
  \<^verbatim>\<open>RefreshDir(remote_path, false)\<close>, and the callback bound to
  \<^verbatim>\<open>ID_SFTP_THREAD_RESPONSE_CONNECTED\<close> for the payload
  \<^verbatim>\<open>SftpThreadResponseConnected{home_dir}\<close>: it resets the flag of every opened file.
\<close>

definition RefreshDir :: "string \<Rightarrow> SftpguiFrame \<Rightarrow> SftpguiFrame" where
  "RefreshDir remote_path' frame =
     frame\<lparr>busy := True,
           status_text := ''Retrieving directory list...'',
           stored_selected_' := {},
           stored_highlighted_' := [],
           sftp_thread_channel_' := sftp_thread_channel_' frame @ [SftpThreadCmdGetDir remote_path']\<rparr>"

definition on_connected :: "string \<Rightarrow> SftpguiFrame \<Rightarrow> SftpguiFrame" where
  "on_connected home_dir frame =
     (let frame1 = (if current_dir_' frame = [] then frame\<lparr>current_dir_' := home_dir\<rparr> else frame);
          frame2 = frame1\<lparr>opened_files_local_' :=
                     foldl (\<lambda>m key. map_modify key (\<lambda>v. v\<lparr>upload_requested := False\<rparr>) m)
                       (opened_files_local_' frame1) (map fst (opened_files_local_' frame1))\<rparr>;
          frame3 = frame2\<lparr>status_text := ''Connected. Getting directory list...''\<rparr>
      in RefreshDir (current_dir_' frame3) frame3)"

text \<open>
  The state of the map that the callbacks keep: the keys are in strictly ascending order
  and every entry is stored under its own \<^verbatim>\<open>remote_path\<close> (the download callback
  inserts it so).
\<close>

definition opened_files_ok :: "(string \<times> OpenedFile) list \<Rightarrow> bool" where
  "opened_files_ok m =
     (sorted_wrt (<) (map fst m) \<and> list_all (\<lambda>(k, v). remote_path v = k) m)"

text \<open>
  The condition under which a watch tick is to issue an upload for an opened file: no
  upload is requested and the file on disk is newer than the tracked time.
\<close>

definition needs_upload :: "(string \<Rightarrow> int option) \<Rightarrow> OpenedFile \<Rightarrow> bool" where
  "needs_upload last_write_time f =
     (\<not> upload_requested f \<and>
      (case last_write_time (local_path f) of None \<Rightarrow> False | Some time \<Rightarrow> time > modified f))"

text \<open>
  A watch tick in closed form: the uploads it issues, in key order, and the map it
  leaves, with the flag set on every file it issued an upload for.
\<close>

definition issued_uploads ::
  "(string \<Rightarrow> int option) \<Rightarrow> (string \<times> OpenedFile) list \<Rightarrow> Command list" where
  "issued_uploads last_write_time m =
     map (\<lambda>(k, f). SftpThreadCmdUpload (local_path f) (remote_path f))
       (filter (\<lambda>(k, f). needs_upload last_write_time f) m)"

definition marked_files ::
  "(string \<Rightarrow> int option) \<Rightarrow> (string \<times> OpenedFile) list \<Rightarrow> (string \<times> OpenedFile) list" where
  "marked_files last_write_time m =
     map (\<lambda>(k, f). (k, if needs_upload last_write_time f
                         then f\<lparr>upload_requested := True\<rparr> else f)) m"

text \<open>
  Every opened file that has no upload requested exists on disk: for the files a tick
  looks at, \<^verbatim>\<open>last_write_time\<close> does not throw.
\<close>

definition files_exist :: "(string \<Rightarrow> int option) \<Rightarrow> (string \<times> OpenedFile) list \<Rightarrow> bool" where
  "files_exist last_write_time m =
     list_all (\<lambda>(k, f). upload_requested f \<or> last_write_time (local_path f) \<noteq> None) m"

text \<open>
  An instance for the examples: a frame with two opened files, and a file system on
  which \<open>/tmp/a\<close> has the given time, \<open>/tmp/b\<close> the time 5, and no other file
  exists.
\<close>

definition watched_frame :: SftpguiFrame where
  "watched_frame =
     \<lparr>username_' = ''alice'', host_' = ''h'', port_' = 22,
      current_dir_' = ''/r'', stored_highlighted_' = [], stored_selected_' = {},
      opened_files_local_' =
        [(''/r/a'', \<lparr>local_path = ''/tmp/a'', remote_path = ''/r/a'', modified = 10,
                     upload_requested = False\<rparr>),
         (''/r/b'', \<lparr>local_path = ''/tmp/b'', remote_path = ''/r/b'', modified = 10,
                     upload_requested = False\<rparr>)],
      sftp_thread_channel_' = [],
      reconnect_timer_' = \<lparr>running = False, interval = 0\<rparr>,
      reconnect_timer_countdown_' = 0, reconnect_timer_error_' = [],
      status_text = [], busy = False\<rparr>"

definition disk_times :: "int \<Rightarrow> string \<Rightarrow> int option" where
  "disk_times time_a path =
     (if path = ''/tmp/a'' then Some time_a else if path = ''/tmp/b'' then Some 5 else None)"

section \<open>SftpguiFrame::SortAndPopulateDir\<close>

text \<open>
  The comparator \<^verbatim>\<open>cmp\<close>, with the members \<^verbatim>\<open>sort_column_\<close> and \<^verbatim>\<open>sort_desc_\<close>
  it captures as parameters. Strings compare as \<^verbatim>\<open>std::string\<close> does:
  lexicographically by byte value.
\<close>

definition cmp :: "int \<Rightarrow> bool \<Rightarrow> DirEntry \<Rightarrow> DirEntry \<Rightarrow> bool" where
  "cmp sort_column sort_desc a b =
     (if name_' a = ''..'' then True
      else if name_' b = ''..'' then False
      else if isDir_' a \<and> \<not> isDir_' b then True
      else if \<not> isDir_' a \<and> isDir_' b then False
      else if sort_column = 1 then
        (if sort_desc then size_' a < size_' b else size_' a > size_' b)
      else if sort_column = 2 then
        (if sort_desc then modified_' a < modified_' b else modified_' a > modified_' b)
      else if sort_column = 3 then
        (if sort_desc then mode_str_' a < mode_str_' b else mode_str_' a > mode_str_' b)
      else if sort_column = 4 then
        (if sort_desc then owner_' a < owner_' b else owner_' a > owner_' b)
      else if sort_column = 5 then
        (if sort_desc then group_' a < group_' b else group_' a > group_' b)
      else if length (name_' a) > 0 \<and> length (name_' b) > 0 \<and> name_' a ! 0 = CHR ''.'' \<and>
              name_' b ! 0 \<noteq> CHR ''.'' then True
      else if length (name_' a) > 0 \<and> length (name_' b) > 0 \<and> name_' a ! 0 \<noteq> CHR ''.'' \<and>
              name_' b ! 0 = CHR ''.'' then False
      else if sort_desc then name_' a < name_' b
      else name_' a > name_' b)"

text \<open>
  \<^verbatim>\<open>std::sort(first, last, comp)\<close> is the library's: the program has no sorting code of
  its own. The language standard fixes what it returns, not how: \<open>sort_result comp xs ys\<close>
  says that \<open>ys\<close> is a result the standard allows for the input \<open>xs\<close>, a rearrangement of
  \<open>xs\<close> in which no element compares before an earlier one.
\<close>

definition sort_result :: "('a \<Rightarrow> 'a \<Rightarrow> bool) \<Rightarrow> 'a list \<Rightarrow> 'a list \<Rightarrow> bool" where
  "sort_result before xs ys = (mset ys = mset xs \<and> sorted_wrt (\<lambda>a b. \<not> before b a) ys)"

text \<open>
  The part of \<^verbatim>\<open>cmp\<close> below its first four tests: the comparison by the selected
  column, which decides between two entries of the same kind, neither named \<open>..\<close>.
\<close>

definition key_less :: "int \<Rightarrow> bool \<Rightarrow> DirEntry \<Rightarrow> DirEntry \<Rightarrow> bool" where
  "key_less c d a b =
     (if c = 1 then (if d then size_' a < size_' b else size_' a > size_' b)
      else if c = 2 then (if d then modified_' a < modified_' b else modified_' a > modified_' b)
      else if c = 3 then (if d then mode_str_' a < mode_str_' b else mode_str_' a > mode_str_' b)
      else if c = 4 then (if d then owner_' a < owner_' b else owner_' a > owner_' b)
      else if c = 5 then (if d then group_' a < group_' b else group_' a > group_' b)
      else if name_' a \<noteq> [] \<and> name_' b \<noteq> [] \<and> name_' a ! 0 = CHR ''.'' \<and> name_' b ! 0 \<noteq> CHR ''.'' then True
      else if name_' a \<noteq> [] \<and> name_' b \<noteq> [] \<and> name_' a ! 0 \<noteq> CHR ''.'' \<and> name_' b ! 0 = CHR ''.'' then False
      else if d then name_' a < name_' b else name_' a > name_' b)"

text \<open>
  The order of the name column by classes: with \<^verbatim>\<open>sort_desc_\<close> set the empty name
  comes first, then the names that begin with a dot, then the others; without it the
  names that begin with a dot, then the others, then the empty name.
\<close>

definition name_rank :: "bool \<Rightarrow> string \<Rightarrow> nat" where
  "name_rank d x =
     (if x = [] then (if d then 0 else 2)
      else if x ! 0 = CHR ''.'' then (if d then 1 else 0)
      else (if d then 2 else 1))"

text \<open>An entry for the examples, with its name, kind, size and owner.\<close>

definition listed :: "string \<Rightarrow> bool \<Rightarrow> 64 word \<Rightarrow> string \<Rightarrow> DirEntry" where
  "listed name is_dir bytes owner =
     \<lparr>name_' = name, size_' = bytes, modified_' = 0, mode_' = 0, mode_str_' = [],
      owner_' = owner, group_' = [], isDir_' = is_dir\<rparr>"

section \<open>Properties of UploadFile\<close>

lemma upload_loop_unfold:
  "upload_loop replies p local remote =
     (if local = [] then Some (Inr remote)
      else case write_chunk replies p (take BUFLEN local) (int (length (take BUFLEN local)))
                  (int (length (take BUFLEN local))) remote of
             None \<Rightarrow> None
           | Some (Inl e) \<Rightarrow> Some (Inl e)
           | Some (Inr (remote', replies')) \<Rightarrow> upload_loop replies' p (drop BUFLEN local) remote')"
  by (subst upload_loop.simps) (auto simp: Let_def BUFLEN_def split: option.splits sum.splits)

text \<open>
  A write that the server takes whole sends the chunk once, and the copy is exact.
\<close>

lemma write_chunk_whole:
  assumes "buf \<noteq> []" and "length buf \<le> k"
  shows "write_chunk (Accepts k # rs) p buf (int (length buf)) (int (length buf)) remote =
           Some (Inr (remote @ buf, rs))"
  using assms by (cases rs) (simp_all add: min_def)

lemma UploadFile_whole_write_example:
  "UploadFile OpenOk [Accepts 4096] ''abcde'' ''/r/f.txt'' = Some (Inr ''abcde'')"
  by (simp add: UploadFile_def upload_loop_unfold BUFLEN_def)

text \<open>
  C2. The local file holds the five bytes \<open>abcde\<close>; the server takes three bytes of
  the first write and two of the second. The second write sends the start of the buffer
  again, so the remote file ends as \<open>abcab\<close>, not as the local file's bytes.
\<close>

theorem UploadFile_partial_write_resends_prefix:
  "UploadFile OpenOk [Accepts 3, Accepts 2] ''abcde'' ''/r/f.txt'' = Some (Inr ''abcab'')"
  by (simp add: UploadFile_def upload_loop_unfold BUFLEN_def)

section \<open>Properties of normalize_path\<close>

lemma segments_Nil: "segments d [] = []"
  by (subst segments.simps) (simp add: getline_def)

lemma segments_delim: "segments d (d # s) = [] # segments d s"
  by (subst segments.simps) (simp add: getline_def)

lemma segments_token:
  assumes "d \<notin> set p"
  shows "segments d (p @ d # s) = p # segments d s"
proof -
  have "takeWhile (\<lambda>c. c \<noteq> d) (p @ d # s) = p"
    using assms(1) by (induction p) auto
  moreover have "dropWhile (\<lambda>c. c \<noteq> d) (p @ d # s) = d # s"
    using assms(1) by (induction p) auto
  ultimately show ?thesis
    by (subst segments.simps) (simp add: getline_def)
qed

lemma segments_last:
  assumes "d \<notin> set p" and "p \<noteq> []"
  shows "segments d p = [p]"
proof -
  have t: "takeWhile (\<lambda>c. c \<noteq> d) p = p" and r: "dropWhile (\<lambda>c. c \<noteq> d) p = []"
    using assms(1) by auto
  show ?thesis
    using assms(2) by (subst segments.simps) (simp add: getline_def segments_Nil t r)
qed

lemma segments_chars:
  "x \<in> set (segments d s) \<Longrightarrow> d \<notin> set x \<and> set x \<subseteq> set s"
proof (induction d s rule: segments.induct)
  case (1 delim s)
  show ?case
  proof (cases "s = []")
    case True
    with "1.prems" show ?thesis by (simp add: segments_Nil)
  next
    case False
    let ?seg = "takeWhile (\<lambda>c. c \<noteq> delim) s"
    let ?rest = "drop 1 (dropWhile (\<lambda>c. c \<noteq> delim) s)"
    have g: "getline delim s = Some (?seg, ?rest)"
      using False by (simp add: getline_def)
    have unf: "segments delim s = ?seg # segments delim ?rest"
      by (subst segments.simps) (simp add: g)
    have seg: "delim \<notin> set ?seg \<and> set ?seg \<subseteq> set s"
      by (auto dest: set_takeWhileD)
    have rest: "set ?rest \<subseteq> set s"
      by (meson in_set_dropD set_dropWhileD subsetI)
    from "1.prems" unf have "x = ?seg \<or> x \<in> set (segments delim ?rest)" by simp
    then show ?thesis
    proof
      assume "x = ?seg" with seg show ?thesis by simp
    next
      assume "x \<in> set (segments delim ?rest)"
      from "1.IH" [OF g refl this] rest show ?thesis by blast
    qed
  qed
qed

lemma segments_joined:
  "\<forall>q \<in> set (p # ps). d \<notin> set q \<and> q \<noteq> [] \<Longrightarrow>
     segments d (p @ concat (map ((#) d) ps)) = p # ps"
proof (induction ps arbitrary: p)
  case Nil
  then show ?case by (simp add: segments_last)
next
  case (Cons a ps)
  have "segments d (p @ d # (a @ concat (map ((#) d) ps))) =
          p # segments d (a @ concat (map ((#) d) ps))"
    using Cons.prems by (intro segments_token) auto
  moreover have "segments d (a @ concat (map ((#) d) ps)) = a # ps"
    using Cons.prems by (intro Cons.IH) auto
  ultimately show ?case by simp
qed

lemma normalize_parts_subset:
  "set (normalize_parts segs parts) \<subseteq> set parts \<union> (set segs - {[], ''.'', ''..''})"
proof (induction segs arbitrary: parts)
  case Nil
  show ?case by simp
next
  case (Cons s segs)
  have b: "set (butlast parts) \<subseteq> set parts"
    by (auto dest: in_set_butlastD)
  show ?case
  proof -
    consider "s = [] \<or> s = ''.''" | "s = ''..''" "parts \<noteq> []" | "s = ''..''" "parts = []"
      | "s \<noteq> []" "s \<noteq> ''.''" "s \<noteq> ''..''" by blast
    then show ?thesis
    proof cases
      case 1
      then show ?thesis using Cons.IH [of parts] by auto
    next
      case 2
      then show ?thesis using Cons.IH [of "butlast parts"] b by auto
    next
      case 3
      then show ?thesis using Cons.IH [of parts] by auto
    next
      case 4
      then show ?thesis using Cons.IH [of "parts @ [s]"] by auto
    qed
  qed
qed

lemma normalize_parts_clean:
  "[] \<notin> set segs \<Longrightarrow> ''.'' \<notin> set segs \<Longrightarrow> ''..'' \<notin> set segs \<Longrightarrow>
     normalize_parts segs parts = parts @ segs"
  by (induction segs arbitrary: parts) auto

lemma normalize_parts_append:
  "normalize_parts (xs @ ys) parts = normalize_parts ys (normalize_parts xs parts)"
  by (induction xs arbitrary: parts) auto

lemma foldl_slash:
  "foldl (\<lambda>r i. r @ CHR ''/'' # ps ! i) a [0..<length ps] = a @ concat (map ((#) CHR ''/'') ps)"
proof (induction ps rule: rev_induct)
  case Nil
  show ?case by simp
next
  case (snoc x ps)
  have "foldl (\<lambda>r i. r @ CHR ''/'' # (ps @ [x]) ! i) a [0..<length ps] =
        foldl (\<lambda>r i. r @ CHR ''/'' # ps ! i) a [0..<length ps]"
    by (rule foldl_cong) (auto simp: nth_append)
  with snoc show ?case by (simp add: nth_append)
qed

lemma join_parts_Nil: "join_parts [] = []"
  by (simp add: join_parts_def)

lemma join_parts_Cons:
  "join_parts (p # ps) =
     (if length p = 2 \<and> p ! 1 = CHR '':'' then p else CHR ''/'' # p) @ concat (map ((#) CHR ''/'') ps)"
proof -
  have "[0..<Suc (length ps)] = 0 # [Suc 0..<Suc (length ps)]"
    by (rule upt_conv_Cons) simp
  then have u: "[0..<length (p # ps)] = 0 # map Suc [0..<length ps]"
    by (simp add: map_Suc_upt del: upt_Suc)
  show ?thesis
    unfolding join_parts_def u
    by (simp add: foldl_map foldl_slash del: upt_Suc)
qed


lemma replace_chars_id: "old \<notin> set s \<Longrightarrow> replace_chars old new s = s"
  by (induction s) (auto simp: replace_chars_def)

lemma replace_chars_removes: "old \<noteq> new \<Longrightarrow> old \<notin> set (replace_chars old new s)"
  by (auto simp: replace_chars_def)

lemma path_parts_clean:
  assumes "p \<in> set (path_parts path)"
  shows "p \<noteq> [] \<and> p \<noteq> ''.'' \<and> p \<noteq> ''..'' \<and> CHR ''/'' \<notin> set p \<and> CHR 0x5C \<notin> set p"
proof -
  let ?s = "replace_chars (CHR 0x5C) CHR ''/'' path"
  from assms normalize_parts_subset [of "segments CHR ''/'' ?s" "[]"]
  have p: "p \<in> set (segments CHR ''/'' ?s)" and ne: "p \<noteq> []" "p \<noteq> ''.''" "p \<noteq> ''..''"
    by (auto simp: path_parts_def)
  from segments_chars [OF p] have "CHR ''/'' \<notin> set p" and "set p \<subseteq> set ?s"
    by simp_all
  moreover have "CHR 0x5C \<notin> set ?s"
    by (rule replace_chars_removes) simp
  ultimately show ?thesis using ne by blast
qed

lemma path_parts_join:
  assumes "\<forall>q \<in> set ps. q \<noteq> [] \<and> q \<noteq> ''.'' \<and> q \<noteq> ''..'' \<and> CHR ''/'' \<notin> set q \<and> CHR 0x5C \<notin> set q"
    and "ps \<noteq> []"
  shows "path_parts (join_parts ps) = ps"
proof -
  from assms(2) obtain p qs where ps: "ps = p # qs" by (cases ps) auto
  let ?tail = "p @ concat (map ((#) CHR ''/'') qs)"
  have seg: "segments CHR ''/'' ?tail = p # qs"
    using assms(1) ps by (intro segments_joined) auto
  have nb: "CHR 0x5C \<notin> set (join_parts ps)"
    using assms(1) ps by (auto simp: join_parts_Cons)
  have clean: "[] \<notin> set ps" "''.'' \<notin> set ps" "''..'' \<notin> set ps"
    using assms(1) by auto
  have np: "normalize_parts ps [] = ps"
    using normalize_parts_clean [OF clean, of "[]"] by simp
  then have np': "normalize_parts ([] # ps) [] = ps"
    by simp
  have rc: "replace_chars (CHR 0x5C) CHR ''/'' (join_parts ps) = join_parts ps"
    using nb by (rule replace_chars_id)
  show ?thesis
  proof (cases "length p = 2 \<and> p ! 1 = CHR '':''")
    case True
    then have "join_parts ps = ?tail" by (simp add: ps join_parts_Cons)
    then have "segments CHR ''/'' (join_parts ps) = ps"
      using seg ps by simp
    then show ?thesis
      unfolding path_parts_def rc by (simp only: np)
  next
    case False
    then have "join_parts ps = CHR ''/'' # ?tail" by (simp add: ps join_parts_Cons)
    then have "segments CHR ''/'' (join_parts ps) = [] # ps"
      using seg ps by (simp only: segments_delim)
    then show ?thesis
      unfolding path_parts_def rc by (simp only: np')
  qed
qed

lemma join_parts_nonempty: "[] \<notin> set ps \<Longrightarrow> ps \<noteq> [] \<Longrightarrow> join_parts ps \<noteq> []"
  by (cases ps) (auto simp: join_parts_Cons)

lemma path_parts_root: "path_parts ''/'' = []"
  by (simp add: path_parts_def replace_chars_def segments_delim segments_Nil)

lemma normalize_path_idem: "normalize_path (normalize_path path) = normalize_path path"
proof (cases "path_parts path = []")
  case True
  then have "normalize_path path = ''/''"
    by (simp add: normalize_path_def join_parts_Nil)
  then show ?thesis
    by (simp add: normalize_path_def path_parts_root join_parts_Nil)
next
  case False
  have clean: "\<forall>q \<in> set (path_parts path). q \<noteq> [] \<and> q \<noteq> ''.'' \<and> q \<noteq> ''..'' \<and> CHR ''/'' \<notin> set q \<and> CHR 0x5C \<notin> set q"
    using path_parts_clean by blast
  then have "[] \<notin> set (path_parts path)" by blast
  with False have ne: "join_parts (path_parts path) \<noteq> []"
    by (simp add: join_parts_nonempty)
  then have n: "normalize_path path = join_parts (path_parts path)"
    by (simp add: normalize_path_def)
  have "path_parts (join_parts (path_parts path)) = path_parts path"
    using clean False by (rule path_parts_join)
  then show ?thesis
    unfolding n using ne by (simp add: normalize_path_def)
qed


lemma split_at_delim:
  assumes "d \<in> set s"
  shows "\<exists>p r. s = p @ d # r \<and> d \<notin> set p"
  using assms by (meson split_list_first)

lemma segments_append_delim:
  "segments d (s @ d # t) =
     segments d s @ (if s = [] \<or> last s = d then [[]] else []) @ segments d t"
proof (induction s rule: length_induct)
  case (1 s)
  show ?case
  proof (cases "d \<in> set s")
    case False
    show ?thesis
    proof (cases "s = []")
      case True
      then show ?thesis by (simp add: segments_delim segments_Nil)
    next
      case ne: False
      with False have "last s \<noteq> d" using last_in_set by metis
      with False ne show ?thesis
        by (simp add: segments_token segments_last)
    qed
  next
    case True
    then obtain p r where s: "s = p @ d # r" and p: "d \<notin> set p"
      using split_at_delim by metis
    have "length r < length s" using s by simp
    with "1.IH" have ih: "segments d (r @ d # t) =
        segments d r @ (if r = [] \<or> last r = d then [[]] else []) @ segments d t"
      by blast
    have l: "(r = [] \<or> last r = d) = (last s = d)"
      using s by auto
    have "segments d (s @ d # t) = p # segments d (r @ d # t)"
      using segments_token [OF p, of "r @ d # t"] s by simp
    moreover have "segments d s = p # segments d r"
      using segments_token [OF p, of r] s by simp
    ultimately show ?thesis
      using ih l s by simp
  qed
qed

lemma replace_chars_append:
  "replace_chars old new (xs @ ys) = replace_chars old new xs @ replace_chars old new ys"
  by (simp add: replace_chars_def)

lemma path_parts_dotdot: "path_parts (path @ ''/..'') = butlast (path_parts path)"
proof -
  let ?s = "replace_chars (CHR 0x5C) CHR ''/'' path"
  let ?x = "if ?s = [] \<or> last ?s = CHR ''/'' then [[]] else []"
  have r: "replace_chars (CHR 0x5C) CHR ''/'' (path @ ''/..'') = ?s @ CHR ''/'' # ''..''"
    by (simp add: replace_chars_append) (simp add: replace_chars_def)
  have d: "segments CHR ''/'' ''..'' = [''..'']"
    by (rule segments_last) simp_all
  have "segments CHR ''/'' (?s @ CHR ''/'' # ''..'') = segments CHR ''/'' ?s @ ?x @ [''..'']"
    by (simp only: segments_append_delim d)
  then show ?thesis
    unfolding path_parts_def r
    by (simp add: normalize_parts_append)
qed

lemma path_parts_Nil: "path_parts [] = []"
  by (simp add: path_parts_def replace_chars_def segments_Nil)

lemma normalize_parts_gap:
  "normalize_parts (if c then [[]] else []) parts = parts"
  by simp

lemma path_parts_append:
  "path_parts (p @ CHR ''/'' # q) =
     normalize_parts (segments CHR ''/'' (replace_chars (CHR 0x5C) CHR ''/'' q)) (path_parts p)"
proof -
  have "replace_chars (CHR 0x5C) CHR ''/'' (p @ CHR ''/'' # q) =
      replace_chars (CHR 0x5C) CHR ''/'' p @ CHR ''/'' # replace_chars (CHR 0x5C) CHR ''/'' q"
    by (simp add: replace_chars_def)
  then show ?thesis
    unfolding path_parts_def
    by (simp only: segments_append_delim normalize_parts_append normalize_parts_gap)
qed

lemma path_parts_slash: "path_parts (CHR ''/'' # q) = path_parts q"
  using path_parts_append [of "[]" q] by (simp add: path_parts_Nil) (simp add: path_parts_def)

lemma path_parts_backslash:
  "path_parts (replace_chars (CHR 0x5C) CHR ''/'' path) = path_parts path"
proof -
  have "replace_chars (CHR 0x5C) CHR ''/'' (replace_chars (CHR 0x5C) CHR ''/'' path) =
      replace_chars (CHR 0x5C) CHR ''/'' path"
    by (rule replace_chars_id) (rule replace_chars_removes, simp)
  then show ?thesis by (simp add: path_parts_def)
qed

lemma path_parts_backslash_separator:
  "path_parts (path @ CHR 0x5C # rest) = path_parts (path @ CHR ''/'' # rest)"
  by (simp add: path_parts_def replace_chars_def)

lemma path_parts_segment:
  assumes "seg \<noteq> []" "seg \<noteq> ''.''" "seg \<noteq> ''..''" "CHR ''/'' \<notin> set seg" "CHR 0x5C \<notin> set seg"
  shows "path_parts (path @ CHR ''/'' # seg) = path_parts path @ [seg]"
proof -
  have "replace_chars (CHR 0x5C) CHR ''/'' seg = seg"
    using assms(5) by (rule replace_chars_id)
  moreover have "segments CHR ''/'' seg = [seg]"
    using assms(4,1) by (rule segments_last)
  ultimately show ?thesis
    using assms(1-3) by (simp add: path_parts_append)
qed

lemma path_parts_trailing_slash: "path_parts (path @ ''/'') = path_parts path"
  using path_parts_append [of path "[]"] by (simp add: replace_chars_def segments_Nil)

lemma path_parts_dot: "path_parts (path @ ''/.'') = path_parts path"
proof -
  have "segments CHR ''/'' ''.'' = [''.'']" by (rule segments_last) simp_all
  then show ?thesis
    using path_parts_append [of path "''.''"] by (simp add: replace_chars_def)
qed

text \<open>
  C10. For every input string, \<^verbatim>\<open>normalize_path\<close> reads the path as segments
  between slashes, a backslash counting as a slash wherever it stands. Read from the left, an ordinary
  segment is kept as the next part; an empty segment and \<open>.\<close> change nothing; every
  \<open>..\<close> removes the last part kept so far and is dropped when there is none, so the
  parts never go above the root. What follows a slash depends on what stands before it
  only through the parts kept there. The result is \<open>/\<close> when no part is kept and
  otherwise the parts, each after a slash (a first part like a drive letter has none).
  The kept parts are never empty, \<open>.\<close> or \<open>..\<close>, parsing the result again keeps
  exactly the same parts, and normalising twice gives the same path as normalising once.
\<close>

theorem normalize_path_clean_and_idempotent:
  "[] \<notin> set (path_parts path) \<and> ''.'' \<notin> set (path_parts path) \<and>
   ''..'' \<notin> set (path_parts path) \<and>
   path_parts (path @ ''/..'') =
     (if path_parts path = [] then [] else butlast (path_parts path)) \<and>
   normalize_path path =
     (if path_parts path = [] then ''/'' else join_parts (path_parts path)) \<and>
   path_parts (normalize_path path) = path_parts path \<and>
   normalize_path (normalize_path path) = normalize_path path \<and>
   path_parts [] = [] \<and>
   path_parts (CHR ''/'' # rest) = path_parts rest \<and>
   path_parts (replace_chars (CHR 0x5C) CHR ''/'' path) = path_parts path \<and>
   path_parts (path @ CHR 0x5C # rest) = path_parts (path @ CHR ''/'' # rest) \<and>
   (seg \<noteq> [] \<and> seg \<noteq> ''.'' \<and> seg \<noteq> ''..'' \<and> CHR ''/'' \<notin> set seg \<and> CHR 0x5C \<notin> set seg \<longrightarrow>
      path_parts (path @ CHR ''/'' # seg) = path_parts path @ [seg]) \<and>
   path_parts (path @ ''/'') = path_parts path \<and>
   path_parts (path @ ''/.'') = path_parts path \<and>
   path_parts (normalize_path path @ CHR ''/'' # rest) = path_parts (path @ CHR ''/'' # rest) \<and>
   join_parts [] = [] \<and>
   join_parts (p # ps) =
     (if length p = 2 \<and> p ! 1 = CHR '':'' then p else CHR ''/'' # p) @
     concat (map ((#) CHR ''/'') ps)"
proof -
  have clean: "[] \<notin> set (path_parts path)" "''.'' \<notin> set (path_parts path)"
    "''..'' \<notin> set (path_parts path)"
    using path_parts_clean [of _ path] by blast+
  have dd: "path_parts (path @ ''/..'') =
      (if path_parts path = [] then [] else butlast (path_parts path))"
    by (simp add: path_parts_dotdot)
  have res: "normalize_path path =
      (if path_parts path = [] then ''/'' else join_parts (path_parts path))"
    using clean(1) by (simp add: normalize_path_def join_parts_Nil join_parts_nonempty)
  have again: "path_parts (normalize_path path) = path_parts path"
  proof (cases "path_parts path = []")
    case True
    then show ?thesis by (simp add: res path_parts_root)
  next
    case False
    have "\<forall>q \<in> set (path_parts path). q \<noteq> [] \<and> q \<noteq> ''.'' \<and> q \<noteq> ''..'' \<and>
        CHR ''/'' \<notin> set q \<and> CHR 0x5C \<notin> set q"
      using path_parts_clean by blast
    then have "path_parts (join_parts (path_parts path)) = path_parts path"
      using False by (rule path_parts_join)
    with False show ?thesis by (simp add: res)
  qed
  have seg: "seg \<noteq> [] \<and> seg \<noteq> ''.'' \<and> seg \<noteq> ''..'' \<and> CHR ''/'' \<notin> set seg \<and> CHR 0x5C \<notin> set seg \<longrightarrow>
      path_parts (path @ CHR ''/'' # seg) = path_parts path @ [seg]"
    using path_parts_segment by blast
  have pre: "path_parts (normalize_path path @ CHR ''/'' # rest) = path_parts (path @ CHR ''/'' # rest)"
    by (simp only: path_parts_append again)
  show ?thesis
    using clean dd res again normalize_path_idem path_parts_Nil path_parts_slash
      path_parts_backslash seg path_parts_trailing_slash path_parts_dot pre
      join_parts_Nil join_parts_Cons path_parts_backslash_separator
    by blast
qed

theorem normalize_path_clean_and_idempotent_witness:
  "''b'' \<noteq> [] \<and> ''b'' \<noteq> ''.'' \<and> ''b'' \<noteq> ''..'' \<and> CHR ''/'' \<notin> set ''b'' \<and> CHR 0x5C \<notin> set ''b'' \<and>
   path_parts (''/a'' @ CHR ''/'' # ''b'') = [''a'', ''b''] \<and>
   normalize_path ''/a/b/..'' = ''/a'' \<and>
   normalize_path ''/a/../../b/./c//d/../e'' = ''/b/c/e'' \<and>
   normalize_path (''C:'' @ [CHR 0x5C] @ ''x'' @ [CHR 0x5C] @ ''y'') = ''C:/x/y''"
proof -
  have h: "''b'' \<noteq> [] \<and> ''b'' \<noteq> ''.'' \<and> ''b'' \<noteq> ''..'' \<and> CHR ''/'' \<notin> set ''b'' \<and> CHR 0x5C \<notin> set ''b''"
    by simp
  have a: "path_parts ''/a'' = [''a'']"
    by code_simp
  have "path_parts (''/a'' @ CHR ''/'' # ''b'') = path_parts ''/a'' @ [''b'']"
    using normalize_path_clean_and_idempotent [of "''/a''" "[]" "''b''" "[]" "[]"] h by blast
  then have b: "path_parts (''/a'' @ CHR ''/'' # ''b'') = [''a'', ''b'']"
    by (simp only: a append.simps)
  have c: "normalize_path ''/a/b/..'' = ''/a''"
    by code_simp
  have d: "normalize_path ''/a/../../b/./c//d/../e'' = ''/b/c/e''"
    by code_simp
  have e: "normalize_path (''C:'' @ [CHR 0x5C] @ ''x'' @ [CHR 0x5C] @ ''y'') = ''C:/x/y''"
    by code_simp
  show ?thesis
    using h b c d e by blast
qed

section \<open>Properties of GetDir\<close>

lemma parse_line_late: "4 \<le> n \<Longrightarrow> parse_line segs n d = d"
  by (induction segs arbitrary: n) (auto simp: Let_def)

lemma parse_line_filter:
  "parse_line segs n d = parse_line (filter (\<lambda>s. s \<noteq> []) segs) n d"
  by (induction segs n d rule: parse_line.induct) (auto simp: Let_def)

lemma parse_line_keeps:
  "name_' (parse_line segs n d) = name_' d \<and> size_' (parse_line segs n d) = size_' d \<and>
   modified_' (parse_line segs n d) = modified_' d \<and> mode_' (parse_line segs n d) = mode_' d \<and>
   isDir_' (parse_line segs n d) = isDir_' d"
  by (induction segs n d rule: parse_line.induct) (auto simp: Let_def)

lemma parse_line_malformed:
  assumes "filter (\<lambda>s. s \<noteq> []) segs = [] \<or> length (hd (filter (\<lambda>s. s \<noteq> []) segs)) \<noteq> 10"
  shows "parse_line segs 0 d = d"
proof -
  let ?toks = "filter (\<lambda>s. s \<noteq> []) segs"
  have "parse_line ?toks 0 d = d"
  proof (cases ?toks)
    case Nil
    then show ?thesis by simp
  next
    case (Cons t ts)
    with assms have "length t \<noteq> 10" by simp
    moreover from Cons have "t \<in> set ?toks" by simp
    then have "t \<noteq> []" by simp
    ultimately show ?thesis by (simp add: Cons)
  qed
  then show ?thesis by (subst parse_line_filter)
qed

lemma parse_line_wellformed:
  assumes ne: "\<forall>t \<in> set toks. t \<noteq> []" and t0: "toks \<noteq> []" "length (toks ! 0) = 10"
  shows "parse_line toks 0 d =
     d\<lparr>mode_str_' := toks ! 0,
       owner_' := (if 2 < length toks then toks ! 2 else owner_' d),
       group_' := (if 3 < length toks then toks ! 3 else group_' d)\<rparr>"
proof -
  consider a where "toks = [a]" | a b where "toks = [a, b]" | a b c where "toks = [a, b, c]"
    | a b c e rest where "toks = a # b # c # e # rest"
    using t0(1) by (metis list.exhaust)
  then show ?thesis
  proof cases
    case 1
    with ne t0 show ?thesis by (simp add: Let_def)
  next
    case 2
    with ne t0 show ?thesis by (simp add: Let_def)
  next
    case 3
    with ne t0 show ?thesis by (simp add: Let_def)
  next
    case 4
    with ne t0 show ?thesis by (simp add: Let_def parse_line_late)
  qed
qed

lemma readdir_loop_ok:
  "\<not> list_ex is_ReaddirFails (replies_read replies) \<Longrightarrow>
     readdir_loop replies files = Inr (files @ listed_entries replies)"
  by (induction replies files rule: readdir_loop.induct)
     (auto simp: listed_entries_def replies_read_def)

lemma replies_read_all: "\<not> list_ex ends_listing replies \<Longrightarrow> replies_read replies = replies"
  by (induction replies) (auto simp: replies_read_def)

lemma replies_read_append:
  "\<not> list_ex ends_listing before \<Longrightarrow>
     replies_read (before @ after) = before @ replies_read after"
  by (induction before) (auto simp: replies_read_def)

lemma reply_entries_append:
  "reply_entries (xs @ ys) = reply_entries xs @ reply_entries ys"
  by (induction xs rule: reply_entries.induct) auto

lemma dir_entry_name: "name_' (dir_entry name line attrs) = name"
  by (simp add: dir_entry_def Let_def parse_line_keeps DirEntry_new_def)

lemma line_tokens_space:
  "line_tokens (a @ CHR '' '' # b) = line_tokens a @ line_tokens b"
  by (simp add: line_tokens_def segments_append_delim)

lemma line_tokens_spaces:
  "line_tokens (a @ replicate (Suc n) CHR '' '' @ b) = line_tokens a @ line_tokens b"
proof (induction n arbitrary: a)
  case 0
  show ?case by (simp add: line_tokens_space)
next
  case (Suc n)
  have "line_tokens (a @ replicate (Suc (Suc n)) CHR '' '' @ b) =
        line_tokens (a @ CHR '' '' # (replicate (Suc n) CHR '' '' @ b))"
    by simp
  also have "\<dots> = line_tokens a @ line_tokens ([] @ replicate (Suc n) CHR '' '' @ b)"
    by (simp only: line_tokens_space append_Nil)
  also have "\<dots> = line_tokens a @ line_tokens [] @ line_tokens b"
    by (simp only: Suc.IH)
  finally show ?case by (simp add: line_tokens_def segments_Nil)
qed

lemma listed_entries_names:
  "map name_' (listed_entries replies) =
     filter (\<lambda>name. name \<noteq> ''.'') (map fst (reply_entries (replies_read replies)))"
proof -
  have "map name_' (map (\<lambda>(name, line, attrs). dir_entry name line attrs)
            (filter (\<lambda>(name, line, attrs). name \<noteq> ''.'') es)) =
        filter (\<lambda>name. name \<noteq> ''.'') (map fst es)" for es
    by (induction es) (auto simp: dir_entry_name)
  then show ?thesis by (simp add: listed_entries_def)
qed

lemma listed_entries_insert:
  assumes "\<not> list_ex ends_listing before" and "name \<noteq> []" and "c_string name \<noteq> ''.''"
  shows "listed_entries (before @ ReaddirEntry name line attrs # after) =
           listed_entries before @ dir_entry (c_string name) (c_string line) attrs #
             listed_entries after"
proof -
  have "replies_read (before @ ReaddirEntry name line attrs # after) =
          before @ ReaddirEntry name line attrs # replies_read after"
    using assms(1,2) by (simp add: replies_read_append) (simp add: replies_read_def)
  moreover have "replies_read before = before"
    using assms(1) by (rule replies_read_all)
  ultimately show ?thesis
    using assms(3) by (simp add: listed_entries_def reply_entries_append)
qed

lemma dir_entry_no_line:
  "dir_entry name [] attrs =
     \<lparr>name_' = name,
      size_' = (if flags attrs AND LIBSSH2_SFTP_ATTR_SIZE \<noteq> 0 then filesize attrs else 0),
      modified_' = (if flags attrs AND LIBSSH2_SFTP_ATTR_ACMODTIME \<noteq> 0 then mtime attrs else 0),
      mode_' = (if flags attrs AND LIBSSH2_SFTP_ATTR_PERMISSIONS \<noteq> 0 then permissions attrs else 0),
      mode_str_' = [], owner_' = [], group_' = [],
      isDir_' = (flags attrs AND LIBSSH2_SFTP_ATTR_PERMISSIONS \<noteq> 0 \<and>
                 permissions attrs AND S_IFDIR \<noteq> 0)\<rparr>"
  by (simp add: dir_entry_def Let_def segments_Nil DirEntry_new_def)

lemma dir_entry_parse:
  "dir_entry name line attrs = parse_line (line_tokens line) 0 (dir_entry name [] attrs)"
  unfolding dir_entry_def Let_def line_tokens_def segments_Nil parse_line.simps(1)
  by (rule parse_line_filter)

text \<open>
  C6 (as the claim states it). The ten characters \<open>drwxr-xr-x\<close> are followed by a
  tab: split on whitespace the first token has length 10, yet the parser, which splits
  on the space character, sees a first segment of another length and leaves the
  permission string empty.
\<close>

theorem parse_line_tab_counterexample:
  "length (spec_tokens (''drwxr-xr-x'' @ [CHR 0x09] @ ''2 root root 4096 Jan  1 00:00 docs'') ! 0) = 10 \<and>
   mode_str_' (dir_entry ''docs''
       (''drwxr-xr-x'' @ [CHR 0x09] @ ''2 root root 4096 Jan  1 00:00 docs'')
       \<lparr>flags = 0, filesize = 0, permissions = 0, mtime = 0\<rparr>) = [] \<and>
   spec_tokens (''drwxr-xr-x'' @ [CHR 0x09] @ ''2 root root 4096 Jan  1 00:00 docs'') ! 0 = ''drwxr-xr-x''"
  by code_simp

text \<open>
  C6 (amended). The tokens of a line are its non-empty runs of characters other than
  the space character. For every line whose first token has length exactly 10, the
  entry built from the line is the entry of the attributes alone with the permission
  string set to token 0, the owner to token 2 and the group to token 3 (a field whose
  token the line lacks stays empty); no other token has any effect. Any number of extra
  spaces between two parts of a line leaves its tokens unchanged.
\<close>

theorem parse_line_positional:
  assumes "line_tokens line \<noteq> []" and "length (line_tokens line ! 0) = 10"
  shows "dir_entry name line attrs =
           (dir_entry name [] attrs)
             \<lparr>mode_str_' := line_tokens line ! 0,
              owner_' := (if 2 < length (line_tokens line) then line_tokens line ! 2 else []),
              group_' := (if 3 < length (line_tokens line) then line_tokens line ! 3 else [])\<rparr> \<and>
         line_tokens (a @ replicate (Suc n) CHR '' '' @ b) = line_tokens a @ line_tokens b"
proof -
  have ne: "\<forall>t \<in> set (line_tokens line). t \<noteq> []"
    by (simp add: line_tokens_def)
  have "parse_line (line_tokens line) 0 (dir_entry name [] attrs) =
          (dir_entry name [] attrs)
             \<lparr>mode_str_' := line_tokens line ! 0,
              owner_' := (if 2 < length (line_tokens line) then line_tokens line ! 2
                          else owner_' (dir_entry name [] attrs)),
              group_' := (if 3 < length (line_tokens line) then line_tokens line ! 3
                          else group_' (dir_entry name [] attrs))\<rparr>"
    using ne assms by (rule parse_line_wellformed)
  moreover have "owner_' (dir_entry name [] attrs) = []" "group_' (dir_entry name [] attrs) = []"
    by (simp_all add: dir_entry_no_line)
  ultimately show ?thesis
    by (simp only: dir_entry_parse [of name line attrs] line_tokens_spaces)
qed

theorem parse_line_positional_witness:
  "line_tokens ''drwxr-xr-x   2 root   wheel 4096 Jan  1 00:00 docs'' \<noteq> [] \<and>
   length (line_tokens ''drwxr-xr-x   2 root   wheel 4096 Jan  1 00:00 docs'' ! 0) = 10 \<and>
   dir_entry ''docs'' ''drwxr-xr-x   2 root   wheel 4096 Jan  1 00:00 docs''
       \<lparr>flags = 0, filesize = 0, permissions = 0, mtime = 0\<rparr> =
     \<lparr>name_' = ''docs'', size_' = 0, modified_' = 0, mode_' = 0, mode_str_' = ''drwxr-xr-x'',
      owner_' = ''root'', group_' = ''wheel'', isDir_' = False\<rparr>"
proof -
  have t: "line_tokens ''drwxr-xr-x   2 root   wheel 4096 Jan  1 00:00 docs'' =
      [''drwxr-xr-x'', ''2'', ''root'', ''wheel'', ''4096'', ''Jan'', ''1'', ''00:00'', ''docs'']"
    by code_simp
  have h1: "line_tokens ''drwxr-xr-x   2 root   wheel 4096 Jan  1 00:00 docs'' \<noteq> []"
    by (simp add: t)
  have h2: "length (line_tokens ''drwxr-xr-x   2 root   wheel 4096 Jan  1 00:00 docs'' ! 0) = 10"
    by (simp add: t)
  show ?thesis
    using parse_line_positional [OF h1 h2, of "''docs''"
        "\<lparr>flags = 0, filesize = 0, permissions = 0, mtime = 0\<rparr>" "[]" 0 "[]"]
    by (simp add: t dir_entry_no_line)
qed

text \<open>
  C7 (as the claim states it). In the line \<open>drwx\<close>, a tab, \<open>r-xr- 2 root wheel\<close>
  the first token between whitespace has length 4, yet the parser, which splits on
  the space character, sees a first segment of length 10 and sets the permission
  string, the owner and the group.
\<close>

theorem GetDir_malformed_line_tab_counterexample:
  "spec_tokens (''drwx'' @ [CHR 0x09] @ ''r-xr- 2 root wheel'') ! 0 = ''drwx'' \<and>
   mode_str_' (dir_entry ''f'' (''drwx'' @ [CHR 0x09] @ ''r-xr- 2 root wheel'')
       \<lparr>flags = 0, filesize = 0, permissions = 0, mtime = 0\<rparr>) =
     ''drwx'' @ [CHR 0x09] @ ''r-xr-'' \<and>
   owner_' (dir_entry ''f'' (''drwx'' @ [CHR 0x09] @ ''r-xr- 2 root wheel'')
       \<lparr>flags = 0, filesize = 0, permissions = 0, mtime = 0\<rparr>) = ''root'' \<and>
   group_' (dir_entry ''f'' (''drwx'' @ [CHR 0x09] @ ''r-xr- 2 root wheel'')
       \<lparr>flags = 0, filesize = 0, permissions = 0, mtime = 0\<rparr>) = ''wheel''"
  by code_simp

text \<open>
  C7 (amended). The tokens of a line are its non-empty runs of characters other than
  the space character. For every line whose first token does not have length exactly
  10, and for a line with no token at all, the entry keeps an empty permission string,
  owner and group and carries the name and the attributes the server supplied; such an
  entry, with a name that is neither empty nor \<open>.\<close>, is in the listing at its place,
  and the listing succeeds whenever no read of the directory fails.
\<close>

theorem GetDir_malformed_line:
  assumes "line_tokens (c_string line) = [] \<or> length (hd (line_tokens (c_string line))) \<noteq> 10"
    and "name \<noteq> []" and "c_string name \<noteq> ''.''"
    and "\<not> list_ex ends_listing before"
    and "\<not> list_ex is_ReaddirFails (before @ replies_read after)"
  shows "dir_entry (c_string name) (c_string line) attrs =
           \<lparr>name_' = c_string name,
            size_' = (if flags attrs AND LIBSSH2_SFTP_ATTR_SIZE \<noteq> 0 then filesize attrs else 0),
            modified_' = (if flags attrs AND LIBSSH2_SFTP_ATTR_ACMODTIME \<noteq> 0 then mtime attrs else 0),
            mode_' = (if flags attrs AND LIBSSH2_SFTP_ATTR_PERMISSIONS \<noteq> 0 then permissions attrs else 0),
            mode_str_' = [], owner_' = [], group_' = [],
            isDir_' = (flags attrs AND LIBSSH2_SFTP_ATTR_PERMISSIONS \<noteq> 0 \<and>
                       permissions attrs AND S_IFDIR \<noteq> 0)\<rparr> \<and>
         GetDir OpendirOk (before @ ReaddirEntry name line attrs # after) path =
           Inr (listed_entries before @ dir_entry (c_string name) (c_string line) attrs #
                  listed_entries after)"
proof -
  have "parse_line (segments CHR '' '' (c_string line)) 0 d = d" for d
    using assms(1) unfolding line_tokens_def by (rule parse_line_malformed)
  then have "dir_entry (c_string name) (c_string line) attrs = dir_entry (c_string name) [] attrs"
    by (simp add: dir_entry_def Let_def segments_Nil)
  moreover have "replies_read (before @ ReaddirEntry name line attrs # after) =
          before @ ReaddirEntry name line attrs # replies_read after"
    using assms(4,2) by (simp add: replies_read_append) (simp add: replies_read_def)
  then have "\<not> list_ex is_ReaddirFails (replies_read (before @ ReaddirEntry name line attrs # after))"
    using assms(5) by simp
  then have "readdir_loop (before @ ReaddirEntry name line attrs # after) [] =
      Inr ([] @ listed_entries (before @ ReaddirEntry name line attrs # after))"
    by (rule readdir_loop_ok)
  ultimately show ?thesis
    using listed_entries_insert [OF assms(4,2,3), of line attrs after]
    by (simp add: GetDir_def dir_entry_no_line)
qed

theorem GetDir_malformed_line_witness:
  "(line_tokens (c_string ''total 12'') = [] \<or> length (hd (line_tokens (c_string ''total 12''))) \<noteq> 10) \<and>
   ''f.txt'' \<noteq> [] \<and> c_string ''f.txt'' \<noteq> ''.'' \<and>
   \<not> list_ex ends_listing [ReaddirAgain] \<and>
   \<not> list_ex is_ReaddirFails ([ReaddirAgain] @ replies_read []) \<and>
   GetDir OpendirOk
     ([ReaddirAgain] @ ReaddirEntry ''f.txt'' ''total 12''
        \<lparr>flags = 1, filesize = 7, permissions = 0, mtime = 0\<rparr> # []) ''/srv'' =
     Inr [\<lparr>name_' = ''f.txt'', size_' = 7, modified_' = 0, mode_' = 0, mode_str_' = [],
           owner_' = [], group_' = [], isDir_' = False\<rparr>]"
proof -
  have c: "c_string ''total 12'' = ''total 12''" "c_string ''f.txt'' = ''f.txt''"
    by (simp_all add: c_string_def)
  have t: "line_tokens ''total 12'' = [''total'', ''12'']"
    by code_simp
  have h1: "line_tokens (c_string ''total 12'') = [] \<or>
      length (hd (line_tokens (c_string ''total 12''))) \<noteq> 10"
    by (simp add: c t)
  have h2: "''f.txt'' \<noteq> []" by simp
  have h3: "c_string ''f.txt'' \<noteq> ''.''" by (simp add: c)
  have h4: "\<not> list_ex ends_listing [ReaddirAgain]" by simp
  have h5: "\<not> list_ex is_ReaddirFails ([ReaddirAgain] @ replies_read [])"
    by (simp add: replies_read_def)
  note inst = GetDir_malformed_line [OF h1 h2 h3 h4 h5,
      of "\<lparr>flags = 1, filesize = 7, permissions = 0, mtime = 0\<rparr>" "''/srv''"]
  have e: "dir_entry (c_string ''f.txt'') (c_string ''total 12'')
        \<lparr>flags = 1, filesize = 7, permissions = 0, mtime = 0\<rparr> =
      \<lparr>name_' = ''f.txt'', size_' = 7, modified_' = 0, mode_' = 0, mode_str_' = [],
           owner_' = [], group_' = [], isDir_' = False\<rparr>"
    using inst
    by (simp add: c LIBSSH2_SFTP_ATTR_SIZE_def LIBSSH2_SFTP_ATTR_ACMODTIME_def
        LIBSSH2_SFTP_ATTR_PERMISSIONS_def)
  have l: "listed_entries [ReaddirAgain] = []" "listed_entries [] = []"
    by (simp_all add: listed_entries_def replies_read_def)
  show ?thesis
    using inst h1 h2 h3 h4 h5 by (simp only: e l) simp
qed

text \<open>
  C8. When opening the directory fails, \<^verbatim>\<open>GetDir\<close> raises \<open>DirListFailedPermission\<close>
  with the requested path exactly when the session reports an SFTP protocol error whose
  status is permission denied; \<open>FileNotFound\<close> with the requested path exactly when it
  reports an SFTP protocol error whose status is no such path, no such file or no media;
  and \<open>ConnectionError\<close> with a diagnostic message in every other case.
\<close>

theorem GetDir_opendir_failure:
  "(GetDir (OpendirFails le) replies path = Inl (DirListFailedPermission path)) =
     (session_errno le = LIBSSH2_ERROR_SFTP_PROTOCOL \<and>
      sftp_error le = LIBSSH2_FX_PERMISSION_DENIED) \<and>
   (GetDir (OpendirFails le) replies path = Inl (FileNotFound path)) =
     (session_errno le = LIBSSH2_ERROR_SFTP_PROTOCOL \<and>
      (sftp_error le = LIBSSH2_FX_NO_SUCH_PATH \<or> sftp_error le = LIBSSH2_FX_NO_SUCH_FILE \<or>
       sftp_error le = LIBSSH2_FX_NO_MEDIA)) \<and>
   (GetDir (OpendirFails le) replies path =
      Inl (ConnectionError (''libssh2_sftp_opendir failed. '' @ errmsg le))) =
     (\<not> (session_errno le = LIBSSH2_ERROR_SFTP_PROTOCOL \<and>
         (sftp_error le = LIBSSH2_FX_PERMISSION_DENIED \<or>
          sftp_error le = LIBSSH2_FX_NO_SUCH_PATH \<or> sftp_error le = LIBSSH2_FX_NO_SUCH_FILE \<or>
          sftp_error le = LIBSSH2_FX_NO_MEDIA)))"
  by (simp add: GetDir_def opendir_failure_def LIBSSH2_FX_PERMISSION_DENIED_def
      LIBSSH2_FX_NO_SUCH_PATH_def LIBSSH2_FX_NO_SUCH_FILE_def LIBSSH2_FX_NO_MEDIA_def)

text \<open>
  C9 (as the claim states it). The second entry of the directory has the empty name:
  the value returned for it is 0, which the loop takes for the end of the directory, so
  neither this entry nor the entry \<open>b\<close> after it is in the listing.
\<close>

theorem GetDir_empty_name_counterexample:
  "GetDir OpendirOk
      [ReaddirEntry ''a'' [] \<lparr>flags = 0, filesize = 0, permissions = 0, mtime = 0\<rparr>,
       ReaddirEntry [] [] \<lparr>flags = 0, filesize = 0, permissions = 0, mtime = 0\<rparr>,
       ReaddirEntry ''b'' [] \<lparr>flags = 0, filesize = 0, permissions = 0, mtime = 0\<rparr>] ''/p'' =
     Inr [dir_entry ''a'' [] \<lparr>flags = 0, filesize = 0, permissions = 0, mtime = 0\<rparr>]"
  by (simp add: GetDir_def c_string_def)

text \<open>
  C9 (amended). The loop reads the replies up to the first entry whose name is empty
  (all of them when there is none) and stops there as at the end of the directory. When
  no read before that fails, the listing is the entries read, in the order of the
  replies, without those named exactly \<open>.\<close>: every other entry read is kept, also one
  named \<open>..\<close>, and nothing is reordered.
\<close>

theorem GetDir_keeps_all_but_dot:
  assumes "\<not> list_ex is_ReaddirFails (replies_read replies)"
  shows "GetDir OpendirOk replies path = Inr (listed_entries replies) \<and>
         map name_' (listed_entries replies) =
           filter (\<lambda>name. name \<noteq> ''.'') (map fst (reply_entries (replies_read replies))) \<and>
         replies_read replies = takeWhile (\<lambda>r. \<not> ends_listing r) replies \<and>
         replies_read (others @ ReaddirEntry [] line attrs # rest) = replies_read others \<and>
         (\<not> list_ex ends_listing replies \<longrightarrow> replies_read replies = replies)"
proof -
  have "replies_read (others @ ReaddirEntry [] line attrs # rest) = replies_read others"
    by (induction others) (auto simp: replies_read_def)
  then show ?thesis
    using readdir_loop_ok [OF assms, of "[]"] replies_read_all [of replies]
    by (simp add: GetDir_def listed_entries_names replies_read_def)
qed

theorem GetDir_keeps_all_but_dot_witness:
  "\<not> list_ex is_ReaddirFails (replies_read
      [ReaddirEntry ''.'' [] \<lparr>flags = 0, filesize = 0, permissions = 0, mtime = 0\<rparr>,
       ReaddirAgain,
       ReaddirEntry ''b'' [] \<lparr>flags = 0, filesize = 0, permissions = 0, mtime = 0\<rparr>,
       ReaddirEntry ''..'' [] \<lparr>flags = 0, filesize = 0, permissions = 0, mtime = 0\<rparr>,
       ReaddirEntry ''a'' [] \<lparr>flags = 0, filesize = 0, permissions = 0, mtime = 0\<rparr>]) \<and>
   map name_' (projr (GetDir OpendirOk
      [ReaddirEntry ''.'' [] \<lparr>flags = 0, filesize = 0, permissions = 0, mtime = 0\<rparr>,
       ReaddirAgain,
       ReaddirEntry ''b'' [] \<lparr>flags = 0, filesize = 0, permissions = 0, mtime = 0\<rparr>,
       ReaddirEntry ''..'' [] \<lparr>flags = 0, filesize = 0, permissions = 0, mtime = 0\<rparr>,
       ReaddirEntry ''a'' [] \<lparr>flags = 0, filesize = 0, permissions = 0, mtime = 0\<rparr>] ''/p'')) =
     [''b'', ''..'', ''a'']"
proof -
  have r: "replies_read
      [ReaddirEntry ''.'' [] \<lparr>flags = 0, filesize = 0, permissions = 0, mtime = 0\<rparr>,
       ReaddirAgain,
       ReaddirEntry ''b'' [] \<lparr>flags = 0, filesize = 0, permissions = 0, mtime = 0\<rparr>,
       ReaddirEntry ''..'' [] \<lparr>flags = 0, filesize = 0, permissions = 0, mtime = 0\<rparr>,
       ReaddirEntry ''a'' [] \<lparr>flags = 0, filesize = 0, permissions = 0, mtime = 0\<rparr>] =
      [ReaddirEntry ''.'' [] \<lparr>flags = 0, filesize = 0, permissions = 0, mtime = 0\<rparr>,
       ReaddirAgain,
       ReaddirEntry ''b'' [] \<lparr>flags = 0, filesize = 0, permissions = 0, mtime = 0\<rparr>,
       ReaddirEntry ''..'' [] \<lparr>flags = 0, filesize = 0, permissions = 0, mtime = 0\<rparr>,
       ReaddirEntry ''a'' [] \<lparr>flags = 0, filesize = 0, permissions = 0, mtime = 0\<rparr>]"
    by (simp add: replies_read_def)
  have h: "\<not> list_ex is_ReaddirFails (replies_read
      [ReaddirEntry ''.'' [] \<lparr>flags = 0, filesize = 0, permissions = 0, mtime = 0\<rparr>,
       ReaddirAgain,
       ReaddirEntry ''b'' [] \<lparr>flags = 0, filesize = 0, permissions = 0, mtime = 0\<rparr>,
       ReaddirEntry ''..'' [] \<lparr>flags = 0, filesize = 0, permissions = 0, mtime = 0\<rparr>,
       ReaddirEntry ''a'' [] \<lparr>flags = 0, filesize = 0, permissions = 0, mtime = 0\<rparr>])"
    unfolding r by simp
  show ?thesis
    using GetDir_keeps_all_but_dot [OF h, of "''/p''" "[]" "[]"
        "\<lparr>flags = 0, filesize = 0, permissions = 0, mtime = 0\<rparr>" "[]"] h
    by (simp add: r c_string_def)
qed

section \<open>Properties of the worker thread\<close>














section \<open>Properties of the reconnect timer\<close>


lemma prettify_example: "prettifySentence ''reset by peer'' = ''Reset by peer.''"
  by code_simp












section \<open>Properties of the file watcher\<close>

lemma map_of_after_smaller:
  "\<forall>x \<in> set pre. fst x < (k::string) \<Longrightarrow> map_of (pre @ (k, v) # rest) k = Some v"
  by (induction pre) auto

lemma map_index_found:
  "\<forall>x \<in> set pre. fst x < k \<Longrightarrow> map_index (pre @ (k, v) # rest) k = v"
  unfolding map_index_def by (simp only: map_of_after_smaller option.case)

lemma map_modify_found:
  "\<forall>x \<in> set pre. fst x < k \<Longrightarrow>
     map_modify k g (pre @ (k, v) # rest) = pre @ (k, g v) # rest"
  by (induction pre) auto

lemma UploadWatchedFile_found:
  assumes "\<forall>x \<in> set pre. fst x < k" and "remote_path v = k"
    and "opened_files_local_' frame = pre @ (k, v) # rest"
  shows "sftp_thread_channel_' (UploadWatchedFile k frame) =
           sftp_thread_channel_' frame @ [SftpThreadCmdUpload (local_path v) (remote_path v)]"
    and "opened_files_local_' (UploadWatchedFile k frame) =
           pre @ (k, v\<lparr>upload_requested := True\<rparr>) # rest"
  using assms
  by (simp_all add: UploadWatchedFile_def Let_def map_modify_found map_index_found)

text \<open>Where the loop stands when it has passed the entries \<open>pre\<close> of the map.\<close>

lemma find_after:
  "\<forall>x \<in> set pre. \<not> key < fst x \<Longrightarrow> key < k \<Longrightarrow>
     find (\<lambda>(k', v). key < k') (pre @ (k, v) # rest) = Some (k, v)"
  by (induction pre) auto

lemma next_entry_after:
  assumes "sorted_wrt (<) (map fst (pre @ (k, v) # rest))"
    and "position = (if pre = [] then None else Some (fst (last pre)))"
  shows "next_entry position (pre @ (k, v) # rest) = Some (k, v)"
proof (cases "pre = []")
  case True
  with assms(2) show ?thesis by (simp add: next_entry_def)
next
  case False
  let ?key = "fst (last pre)"
  have "last pre \<in> set pre" using False by simp
  then have lt: "?key < k"
    using assms(1) by (auto simp: sorted_wrt_append)
  have "sorted_wrt (<) (map fst pre)"
    using assms(1) by (simp add: sorted_wrt_append)
  then have "\<forall>x \<in> set pre. fst x \<le> ?key"
    using False
  proof (induction pre rule: rev_induct)
    case Nil
    then show ?case by simp
  next
    case (snoc y ys)
    then show ?case by (auto simp: sorted_wrt_append less_imp_le)
  qed
  then have "\<forall>x \<in> set pre. \<not> ?key < fst x" by auto
  then show ?thesis
    using lt assms(2) False by (simp add: next_entry_def find_after)
qed

lemma next_entry_end:
  assumes "sorted_wrt (<) (map fst pre)"
    and "position = (if pre = [] then None else Some (fst (last pre)))"
  shows "next_entry position pre = None"
proof (cases "pre = []")
  case True
  with assms(2) show ?thesis by (simp add: next_entry_def)
next
  case False
  let ?key = "fst (last pre)"
  have "\<forall>x \<in> set pre. fst x \<le> ?key"
    using assms(1) False
  proof (induction pre rule: rev_induct)
    case Nil
    then show ?case by simp
  next
    case (snoc y ys)
    then show ?case by (auto simp: sorted_wrt_append less_imp_le)
  qed
  then have "\<forall>x \<in> set pre. \<not> ?key < fst x" by auto
  then have "find (\<lambda>(k', v). ?key < k') pre = None"
    by (auto simp: find_None_iff)
  then show ?thesis
    using assms(2) False by (simp add: next_entry_def)
qed

lemma watch_loop_closed_form:
  assumes "sorted_wrt (<) (map fst (pre @ suf))"
    and "list_all (\<lambda>(k, v). remote_path v = k) suf"
    and "files_exist lwt suf"
    and "opened_files_local_' frame = pre @ suf"
    and "position = (if pre = [] then None else Some (fst (last pre)))"
  shows "\<exists>frame'. watch_loop lwt position frame = Some (Done frame') \<and>
           sftp_thread_channel_' frame' = sftp_thread_channel_' frame @ issued_uploads lwt suf \<and>
           opened_files_local_' frame' = pre @ marked_files lwt suf"
  using assms
proof (induction suf arbitrary: pre frame position)
  case Nil
  have "next_entry position (opened_files_local_' frame) = None"
    using Nil.prems(1,4,5) by (simp add: next_entry_end)
  then have "watch_loop lwt position frame = Some (Done frame)"
    by (subst watch_loop.simps) simp
  then show ?case
    using Nil.prems(4) by (simp add: issued_uploads_def marked_files_def)
next
  case (Cons kv suf)
  obtain k v where kv: "kv = (k, v)" by (cases kv)
  have smaller: "\<forall>x \<in> set pre. fst x < k"
    using Cons.prems(1) by (auto simp: kv sorted_wrt_append)
  have rp: "remote_path v = k"
    using Cons.prems(2) by (simp add: kv)
  have nxt: "next_entry position (opened_files_local_' frame) = Some (k, v)"
    using Cons.prems(1,4,5) by (simp add: kv next_entry_after)
  have sorted': "sorted_wrt (<) (map fst ((pre @ [(k, w)]) @ suf))" for w
    using Cons.prems(1) by (simp add: kv sorted_wrt_append)
  have rest_ok: "list_all (\<lambda>(k, v). remote_path v = k) suf" "files_exist lwt suf"
    using Cons.prems(2,3) by (simp_all add: files_exist_def)
  have pos': "Some k = (if pre @ [(k, w)] = [] then None else Some (fst (last (pre @ [(k, w)]))))" for w
    by simp
  show ?case
  proof (cases "needs_upload lwt v")
    case True
    then obtain time where time: "lwt (local_path v) = Some time"
      and cond: "\<not> upload_requested v" "time > modified v"
      by (auto simp: needs_upload_def split: option.splits)
    let ?frame = "UploadWatchedFile k frame"
    have ch: "sftp_thread_channel_' ?frame =
        sftp_thread_channel_' frame @ [SftpThreadCmdUpload (local_path v) (remote_path v)]"
      and mp: "opened_files_local_' ?frame = (pre @ [(k, v\<lparr>upload_requested := True\<rparr>)]) @ suf"
      using UploadWatchedFile_found [OF smaller rp, of frame suf] Cons.prems(4)
      by (simp_all add: kv)
    from Cons.IH [OF sorted' rest_ok mp pos']
    obtain frame' where f': "watch_loop lwt (Some k) ?frame = Some (Done frame')"
      "sftp_thread_channel_' frame' = sftp_thread_channel_' ?frame @ issued_uploads lwt suf"
      "opened_files_local_' frame' = (pre @ [(k, v\<lparr>upload_requested := True\<rparr>)]) @ marked_files lwt suf"
      by blast
    have "watch_loop lwt position frame = Some (Done frame')"
      using nxt cond time rp f'(1) by (subst watch_loop.simps) simp
    moreover have "sftp_thread_channel_' frame' =
        sftp_thread_channel_' frame @ issued_uploads lwt (kv # suf)"
      using f'(2) ch True by (simp add: kv issued_uploads_def)
    moreover have "opened_files_local_' frame' = pre @ marked_files lwt (kv # suf)"
      using f'(3) True by (simp add: kv marked_files_def)
    ultimately show ?thesis by blast
  next
    case False
    have mp: "opened_files_local_' frame = (pre @ [(k, v)]) @ suf"
      using Cons.prems(4) by (simp add: kv)
    from Cons.IH [OF sorted' rest_ok mp pos']
    obtain frame' where f': "watch_loop lwt (Some k) frame = Some (Done frame')"
      "sftp_thread_channel_' frame' = sftp_thread_channel_' frame @ issued_uploads lwt suf"
      "opened_files_local_' frame' = (pre @ [(k, v)]) @ marked_files lwt suf"
      by blast
    have step: "watch_loop lwt position frame = watch_loop lwt (Some k) frame"
    proof (cases "upload_requested v")
      case True
      then show ?thesis using nxt by (subst watch_loop.simps) simp
    next
      case nf: False
      then obtain time where time: "lwt (local_path v) = Some time"
        using Cons.prems(3) by (auto simp: kv files_exist_def)
      with nf False have "\<not> time > modified v" by (simp add: needs_upload_def)
      with nf time nxt show ?thesis by (subst watch_loop.simps) simp
    qed
    have "watch_loop lwt position frame = Some (Done frame')"
      using step f'(1) by simp
    moreover have "sftp_thread_channel_' frame' =
        sftp_thread_channel_' frame @ issued_uploads lwt (kv # suf)"
      using f'(2) False by (simp add: kv issued_uploads_def)
    moreover have "opened_files_local_' frame' = pre @ marked_files lwt (kv # suf)"
      using f'(3) False by (simp add: kv marked_files_def)
    ultimately show ?thesis by blast
  qed
qed

lemma OnFileWatcherTimer_closed_form:
  assumes "opened_files_ok (opened_files_local_' frame)"
    and "files_exist lwt (opened_files_local_' frame)"
  shows "\<exists>frame'. OnFileWatcherTimer lwt frame = Some (Done frame') \<and>
           sftp_thread_channel_' frame' =
             sftp_thread_channel_' frame @ issued_uploads lwt (opened_files_local_' frame) \<and>
           opened_files_local_' frame' = marked_files lwt (opened_files_local_' frame)"
  using watch_loop_closed_form [of "[]" "opened_files_local_' frame" lwt frame None] assms
  by (simp add: OnFileWatcherTimer_def opened_files_ok_def)

lemma marked_files_ok:
  "opened_files_ok m \<Longrightarrow> opened_files_ok (marked_files lwt m)"
  by (induction m) (auto simp: opened_files_ok_def marked_files_def list_all_iff comp_def case_prod_unfold)

lemma marked_files_exist:
  "files_exist lwt2 m \<Longrightarrow> files_exist lwt2 (marked_files lwt m)"
  by (induction m) (auto simp: files_exist_def marked_files_def)

lemma needs_upload_flagged: "\<not> needs_upload lwt (f\<lparr>upload_requested := True\<rparr>)"
  by (simp add: needs_upload_def)

lemma issued_after_marked:
  "issued_uploads lwt2 (marked_files lwt m) =
     map (\<lambda>(k, f). SftpThreadCmdUpload (local_path f) (remote_path f))
       (filter (\<lambda>(k, f). \<not> needs_upload lwt f \<and> needs_upload lwt2 f) m)"
proof (induction m)
  case Nil
  show ?case by (simp add: issued_uploads_def marked_files_def)
next
  case (Cons kv m)
  obtain k f where kv: "kv = (k, f)" by (cases kv)
  show ?case
  proof (cases "needs_upload lwt f")
    case True
    then show ?thesis
      using Cons.IH by (simp add: issued_uploads_def marked_files_def kv needs_upload_flagged)
  next
    case False
    then show ?thesis
      using Cons.IH by (simp add: issued_uploads_def marked_files_def kv)
  qed
qed

lemma issued_keys_disjoint:
  assumes "opened_files_ok m"
  shows "set (map fst (filter (\<lambda>(k, f). needs_upload lwt f) m)) \<inter>
         set (map fst (filter (\<lambda>(k, f). \<not> needs_upload lwt f \<and> needs_upload lwt2 f) m)) = {}"
proof -
  have "distinct (map fst m)"
    using assms by (simp add: opened_files_ok_def strict_sorted_iff)
  then have "f = g" if "(k, f) \<in> set m" "(k, g) \<in> set m" for k f g
    using that by (meson eq_key_imp_eq_value)
  then show ?thesis by fastforce
qed

lemma flagged_not_issued:
  assumes "opened_files_ok m" and "(k, f) \<in> set m" and "upload_requested f"
  shows "SftpThreadCmdUpload lp k \<notin> set (issued_uploads lwt m)"
proof
  assume "SftpThreadCmdUpload lp k \<in> set (issued_uploads lwt m)"
  then obtain k' f' where in_m: "(k', f') \<in> set m" and need: "needs_upload lwt f'"
    and rp: "remote_path f' = k"
    by (auto simp: issued_uploads_def)
  have "remote_path f' = k'"
    using assms(1) in_m by (auto simp: opened_files_ok_def list_all_iff)
  then have same: "k' = k" using rp by simp
  have "distinct (map fst m)"
    using assms(1) by (simp add: opened_files_ok_def strict_sorted_iff)
  then have "f' = f"
    using in_m assms(2) same by (meson eq_key_imp_eq_value)
  then show False
    using need assms(3) by (simp add: needs_upload_def)
qed

lemma key_order: "''/r/a'' < ''/r/b''" "\<not> ''/r/b'' < ''/r/a''" "\<not> ''/r/a'' < ''/r/a''" "\<not> ''/r/b'' < ''/r/b''"
  by code_simp+

lemma ex_tick1:
  "OnFileWatcherTimer (disk_times 20) watched_frame =
     Some (Done (watched_frame
       \<lparr>sftp_thread_channel_' := [SftpThreadCmdUpload ''/tmp/a'' ''/r/a''],
        busy := True,
        opened_files_local_' :=
          [(''/r/a'', \<lparr>local_path = ''/tmp/a'', remote_path = ''/r/a'', modified = 10,
                       upload_requested = True\<rparr>),
           (''/r/b'', \<lparr>local_path = ''/tmp/b'', remote_path = ''/r/b'', modified = 10,
                       upload_requested = False\<rparr>)],
        status_text := ''Uploading /r/a ...''\<rparr>))"
  by (simp add: OnFileWatcherTimer_def watch_loop.simps watched_frame_def next_entry_def
      UploadWatchedFile_def map_index_def disk_times_def Let_def key_order)


text \<open>
  C5 (as the claim states it). A tick issues the upload of \<open>/r/a\<close> and sets its flag.
  While that upload is still on the channel the callback for a new connection runs and
  resets every flag; the next tick finds the file still newer than its tracked time and
  issues the same upload a second time.
\<close>

theorem OnFileWatcherTimer_duplicate_counterexample:
  "Option.bind (OnFileWatcherTimer (disk_times 20) watched_frame)
     (\<lambda>r. case r of
        Thrown \<Rightarrow> None
      | Done frame1 \<Rightarrow>
          map_option (\<lambda>r. case r of Thrown \<Rightarrow> [] | Done frame2 \<Rightarrow> sftp_thread_channel_' frame2)
            (OnFileWatcherTimer (disk_times 20) (on_connected ''/home/alice'' frame1))) =
   Some [SftpThreadCmdUpload ''/tmp/a'' ''/r/a'', SftpThreadCmdGetDir ''/r'',
         SftpThreadCmdUpload ''/tmp/a'' ''/r/a'']"
  by (simp add: ex_tick1)
     (simp add: OnFileWatcherTimer_def watch_loop.simps watched_frame_def next_entry_def
        UploadWatchedFile_def map_index_def disk_times_def Let_def key_order
        on_connected_def RefreshDir_def)

text \<open>
  C5 (amended). Let every opened file be stored under its own remote path and let
  those with no upload requested exist on disk. A watch tick then puts on the channel
  an upload for exactly the opened files, in key order, whose upload-requested flag is
  false and whose time on disk is later than the tracked time, and sets the flag of
  exactly those files; for a file whose flag is set it issues no upload. A later tick
  that finds the opened files as the first tick left
  them, whatever else has changed and whatever the times on disk then are, issues
  uploads only for files that the first tick issued none for. (The flags do not stay
  set until the upload completes in every case: the callback for a new connection
  resets them.)
\<close>

theorem OnFileWatcherTimer_uploads_once:
  assumes "opened_files_ok (opened_files_local_' frame)"
    and "files_exist lwt (opened_files_local_' frame)"
    and "opened_files_local_' frame2 = marked_files lwt (opened_files_local_' frame)"
    and "files_exist lwt2 (opened_files_local_' frame2)"
  shows "\<exists>frame1 frame3.
     OnFileWatcherTimer lwt frame = Some (Done frame1) \<and>
     sftp_thread_channel_' frame1 =
       sftp_thread_channel_' frame @ issued_uploads lwt (opened_files_local_' frame) \<and>
     opened_files_local_' frame1 = marked_files lwt (opened_files_local_' frame) \<and>
     OnFileWatcherTimer lwt2 frame2 = Some (Done frame3) \<and>
     sftp_thread_channel_' frame3 =
       sftp_thread_channel_' frame2 @
         map (\<lambda>(k, f). SftpThreadCmdUpload (local_path f) (remote_path f))
           (filter (\<lambda>(k, f). \<not> needs_upload lwt f \<and> needs_upload lwt2 f)
              (opened_files_local_' frame)) \<and>
     set (map fst (filter (\<lambda>(k, f). needs_upload lwt f) (opened_files_local_' frame))) \<inter>
     set (map fst (filter (\<lambda>(k, f). \<not> needs_upload lwt f \<and> needs_upload lwt2 f)
                     (opened_files_local_' frame))) = {} \<and>
     (\<forall>kf \<in> set (opened_files_local_' frame). upload_requested (snd kf) \<longrightarrow>
        (\<forall>lp. SftpThreadCmdUpload lp (fst kf) \<notin>
                set (issued_uploads lwt (opened_files_local_' frame))))"
proof -
  let ?m = "opened_files_local_' frame"
  from OnFileWatcherTimer_closed_form [OF assms(1,2)]
  obtain frame1 where f1: "OnFileWatcherTimer lwt frame = Some (Done frame1)"
    "sftp_thread_channel_' frame1 = sftp_thread_channel_' frame @ issued_uploads lwt ?m"
    "opened_files_local_' frame1 = marked_files lwt ?m"
    by blast
  have ok2: "opened_files_ok (opened_files_local_' frame2)"
    using assms(1) by (simp add: assms(3) marked_files_ok)
  from OnFileWatcherTimer_closed_form [OF ok2 assms(4)]
  obtain frame3 where f3: "OnFileWatcherTimer lwt2 frame2 = Some (Done frame3)"
    "sftp_thread_channel_' frame3 =
       sftp_thread_channel_' frame2 @ issued_uploads lwt2 (opened_files_local_' frame2)"
    by blast
  have "sftp_thread_channel_' frame3 =
       sftp_thread_channel_' frame2 @
         map (\<lambda>(k, f). SftpThreadCmdUpload (local_path f) (remote_path f))
           (filter (\<lambda>(k, f). \<not> needs_upload lwt f \<and> needs_upload lwt2 f) ?m)"
    using f3(2) by (simp only: assms(3) issued_after_marked)
  moreover have "\<forall>kf \<in> set ?m. upload_requested (snd kf) \<longrightarrow>
        (\<forall>lp. SftpThreadCmdUpload lp (fst kf) \<notin> set (issued_uploads lwt ?m))"
    using flagged_not_issued [OF assms(1)] by (metis prod.collapse)
  ultimately show ?thesis
    using f1 f3(1) issued_keys_disjoint [OF assms(1), of lwt lwt2] by blast
qed

theorem OnFileWatcherTimer_uploads_once_witness:
  "opened_files_ok (opened_files_local_' watched_frame) \<and>
   files_exist (disk_times 20) (opened_files_local_' watched_frame) \<and>
   opened_files_local_' (UploadWatchedFile ''/r/a'' watched_frame) =
     marked_files (disk_times 20) (opened_files_local_' watched_frame) \<and>
   files_exist (\<lambda>path. if path = ''/tmp/b'' then Some 30 else None)
     (opened_files_local_' (UploadWatchedFile ''/r/a'' watched_frame)) \<and>
   map_option (\<lambda>r. case r of Thrown \<Rightarrow> [] | Done frame1 \<Rightarrow> sftp_thread_channel_' frame1)
     (OnFileWatcherTimer (disk_times 20) watched_frame) =
     Some [SftpThreadCmdUpload ''/tmp/a'' ''/r/a''] \<and>
   map_option (\<lambda>r. case r of Thrown \<Rightarrow> [] | Done frame3 \<Rightarrow> sftp_thread_channel_' frame3)
     (OnFileWatcherTimer (\<lambda>path. if path = ''/tmp/b'' then Some 30 else None)
        (UploadWatchedFile ''/r/a'' watched_frame)) =
     Some [SftpThreadCmdUpload ''/tmp/a'' ''/r/a'', SftpThreadCmdUpload ''/tmp/b'' ''/r/b'']"
proof -
  have u: "opened_files_local_' (UploadWatchedFile ''/r/a'' watched_frame) =
      [(''/r/a'', \<lparr>local_path = ''/tmp/a'', remote_path = ''/r/a'', modified = 10,
                   upload_requested = True\<rparr>),
       (''/r/b'', \<lparr>local_path = ''/tmp/b'', remote_path = ''/r/b'', modified = 10,
                   upload_requested = False\<rparr>)]"
    "sftp_thread_channel_' (UploadWatchedFile ''/r/a'' watched_frame) =
      [SftpThreadCmdUpload ''/tmp/a'' ''/r/a'']"
    by (simp_all add: UploadWatchedFile_def watched_frame_def map_index_def Let_def key_order)
  have h1: "opened_files_ok (opened_files_local_' watched_frame)"
    by (simp add: watched_frame_def opened_files_ok_def key_order)
  have h2: "files_exist (disk_times 20) (opened_files_local_' watched_frame)"
    by (simp add: files_exist_def watched_frame_def disk_times_def)
  have h3: "opened_files_local_' (UploadWatchedFile ''/r/a'' watched_frame) =
     marked_files (disk_times 20) (opened_files_local_' watched_frame)"
    unfolding u by (simp add: marked_files_def watched_frame_def needs_upload_def disk_times_def)
  have h4: "files_exist (\<lambda>path. if path = ''/tmp/b'' then Some 30 else None)
     (opened_files_local_' (UploadWatchedFile ''/r/a'' watched_frame))"
    unfolding u by (simp add: files_exist_def)
  from OnFileWatcherTimer_uploads_once [OF h1 h2 h3 h4]
  obtain frame1 frame3 where
    "OnFileWatcherTimer (disk_times 20) watched_frame = Some (Done frame1)"
    "sftp_thread_channel_' frame1 = sftp_thread_channel_' watched_frame @
       issued_uploads (disk_times 20) (opened_files_local_' watched_frame)"
    "OnFileWatcherTimer (\<lambda>path. if path = ''/tmp/b'' then Some 30 else None)
        (UploadWatchedFile ''/r/a'' watched_frame) = Some (Done frame3)"
    "sftp_thread_channel_' frame3 =
       sftp_thread_channel_' (UploadWatchedFile ''/r/a'' watched_frame) @
         map (\<lambda>(k, f). SftpThreadCmdUpload (local_path f) (remote_path f))
           (filter (\<lambda>(k, f). \<not> needs_upload (disk_times 20) f \<and>
                      needs_upload (\<lambda>path. if path = ''/tmp/b'' then Some 30 else None) f)
              (opened_files_local_' watched_frame))"
    by blast
  then have c: "map_option (\<lambda>r. case r of Thrown \<Rightarrow> [] | Done frame1 \<Rightarrow> sftp_thread_channel_' frame1)
     (OnFileWatcherTimer (disk_times 20) watched_frame) =
     Some [SftpThreadCmdUpload ''/tmp/a'' ''/r/a'']"
    "map_option (\<lambda>r. case r of Thrown \<Rightarrow> [] | Done frame3 \<Rightarrow> sftp_thread_channel_' frame3)
     (OnFileWatcherTimer (\<lambda>path. if path = ''/tmp/b'' then Some 30 else None)
        (UploadWatchedFile ''/r/a'' watched_frame)) =
     Some [SftpThreadCmdUpload ''/tmp/a'' ''/r/a'', SftpThreadCmdUpload ''/tmp/b'' ''/r/b'']"
    by (simp_all add: u)
       (simp_all add: watched_frame_def issued_uploads_def needs_upload_def disk_times_def)
  show ?thesis
    using h1 h2 h3 h4 c by blast
qed

section \<open>Properties of SortAndPopulateDir\<close>

lemma cmp_irrefl: "name_' a \<noteq> ''..'' \<Longrightarrow> \<not> cmp c d a a"
  by (simp add: cmp_def)

lemma cmp_dotdot_first: "name_' a = ''..'' \<Longrightarrow> cmp c d a b"
  by (simp add: cmp_def)

lemma cmp_before_dotdot: "name_' a \<noteq> ''..'' \<Longrightarrow> name_' b = ''..'' \<Longrightarrow> \<not> cmp c d a b"
  by (simp add: cmp_def)

lemma cmp_dirs_first:
  "name_' a \<noteq> ''..'' \<Longrightarrow> name_' b \<noteq> ''..'' \<Longrightarrow> isDir_' a \<Longrightarrow> \<not> isDir_' b \<Longrightarrow>
     cmp c d a b \<and> \<not> cmp c d b a"
  by (simp add: cmp_def)

lemma cmp_key:
  "name_' a \<noteq> ''..'' \<Longrightarrow> name_' b \<noteq> ''..'' \<Longrightarrow>
     cmp c d a b = (if isDir_' a \<and> \<not> isDir_' b then True
                    else if \<not> isDir_' a \<and> isDir_' b then False else key_less c d a b)"
  by (simp add: cmp_def key_less_def)

lemma key_less_irrefl: "\<not> key_less c d a a"
  by (simp add: key_less_def)

lemma Nil_least: "x \<noteq> [] \<Longrightarrow> [] < (x::string)"
  by (cases x) simp_all

lemma key_less_name:
  assumes "c \<noteq> 1" "c \<noteq> 2" "c \<noteq> 3" "c \<noteq> 4" "c \<noteq> 5"
  shows "key_less c d a b =
     (name_rank d (name_' a) < name_rank d (name_' b) \<or>
      (name_rank d (name_' a) = name_rank d (name_' b) \<and>
       (if d then name_' a < name_' b else name_' b < name_' a)))"
proof (cases "name_' a = []")
  case True
  then show ?thesis
    using assms by (cases "name_' b = []") (simp_all add: key_less_def name_rank_def Nil_least)
next
  case False
  then show ?thesis
    using assms by (cases "name_' b = []") (simp_all add: key_less_def name_rank_def Nil_least)
qed

lemma key_less_trans:
  assumes "key_less c d a b" and "key_less c d b x"
  shows "key_less c d a x"
proof -
  consider "c = 1" | "c = 2" | "c = 3" | "c = 4" | "c = 5"
    | "c \<noteq> 1" "c \<noteq> 2" "c \<noteq> 3" "c \<noteq> 4" "c \<noteq> 5" by blast
  then show ?thesis
  proof cases
    case 1 with assms show ?thesis by (cases d) (auto simp: key_less_def)
  next
    case 2 with assms show ?thesis by (cases d) (auto simp: key_less_def)
  next
    case 3 with assms show ?thesis by (cases d) (auto simp: key_less_def)
  next
    case 4 with assms show ?thesis by (cases d) (auto simp: key_less_def)
  next
    case 5 with assms show ?thesis by (cases d) (auto simp: key_less_def)
  next
    case 6
    with assms show ?thesis
      unfolding key_less_name [OF 6] by (cases d) auto
  qed
qed

lemma key_less_negtrans:
  assumes "\<not> key_less c d a x" and "\<not> key_less c d x b"
  shows "\<not> key_less c d a b"
proof -
  consider "c = 1" | "c = 2" | "c = 3" | "c = 4" | "c = 5"
    | "c \<noteq> 1" "c \<noteq> 2" "c \<noteq> 3" "c \<noteq> 4" "c \<noteq> 5" by blast
  then show ?thesis
  proof cases
    case 1 with assms show ?thesis by (cases d) (auto simp: key_less_def)
  next
    case 2 with assms show ?thesis by (cases d) (auto simp: key_less_def)
  next
    case 3 with assms show ?thesis by (cases d) (auto simp: key_less_def)
  next
    case 4 with assms show ?thesis by (cases d) (auto simp: key_less_def)
  next
    case 5 with assms show ?thesis by (cases d) (auto simp: key_less_def)
  next
    case 6
    with assms show ?thesis
      unfolding key_less_name [OF 6] by (cases d) auto
  qed
qed

lemma key_less_name_total:
  assumes "c \<noteq> 1" "c \<noteq> 2" "c \<noteq> 3" "c \<noteq> 4" "c \<noteq> 5" and "name_' a \<noteq> name_' b"
  shows "key_less c d a b \<or> key_less c d b a"
  unfolding key_less_name [OF assms(1-5)] using assms(6) by (cases d) auto


lemma cmp_trans:
  assumes "name_' a \<noteq> ''..''" "name_' b \<noteq> ''..''" "name_' x \<noteq> ''..''"
    and "cmp c d a b" and "cmp c d b x"
  shows "cmp c d a x"
  using assms(4,5) key_less_trans [of c d a b x]
  unfolding cmp_key [OF assms(1,2)] cmp_key [OF assms(2,3)] cmp_key [OF assms(1,3)]
  by (cases "isDir_' a"; cases "isDir_' b"; cases "isDir_' x") simp_all

lemma cmp_negtrans:
  assumes "name_' a \<noteq> ''..''" "name_' b \<noteq> ''..''" "name_' x \<noteq> ''..''"
    and "\<not> cmp c d a x" and "\<not> cmp c d x b"
  shows "\<not> cmp c d a b"
  using assms(4,5) key_less_negtrans [of c d a x b]
  unfolding cmp_key [OF assms(1,2)] cmp_key [OF assms(3,2)] cmp_key [OF assms(1,3)]
  by (cases "isDir_' a"; cases "isDir_' b"; cases "isDir_' x") simp_all

lemma cmp_name_total:
  assumes "c \<noteq> 1" "c \<noteq> 2" "c \<noteq> 3" "c \<noteq> 4" "c \<noteq> 5" and "name_' a \<noteq> name_' b"
  shows "cmp c d a b \<or> cmp c d b a"
proof (cases "name_' a = ''..'' \<or> name_' b = ''..''")
  case True
  then show ?thesis by (auto simp: cmp_dotdot_first)
next
  case False
  then have n: "name_' a \<noteq> ''..''" "name_' b \<noteq> ''..''" by simp_all
  show ?thesis
    using key_less_name_total [OF assms, of d]
    unfolding cmp_key [OF n] cmp_key [OF n(2,1)]
    by (cases "isDir_' a"; cases "isDir_' b") simp_all
qed

lemma sorted_unique:
  assumes "sorted_wrt (\<lambda>a b. \<not> before b a) ys" and "sorted_wrt (\<lambda>a b. \<not> before b a) zs"
    and "mset zs = mset ys"
    and "\<forall>a \<in> set ys. \<forall>b \<in> set ys. a \<noteq> b \<longrightarrow> before a b \<or> before b a"
  shows "zs = ys"
  using assms
proof (induction ys arbitrary: zs)
  case Nil
  then show ?case by simp
next
  case (Cons y ys)
  from Cons.prems(3) have "zs \<noteq> []" by auto
  then obtain z zs' where zs: "zs = z # zs'" by (cases zs) auto
  have sets: "set (z # zs') = set (y # ys)"
    using Cons.prems(3) unfolding zs by (rule mset_eq_setD)
  have "z = y"
  proof (rule ccontr)
    assume ne: "z \<noteq> y"
    with sets have "z \<in> set ys" by auto
    then have 1: "\<not> before z y" using Cons.prems(1) by simp
    from ne sets have "y \<in> set zs'" by auto
    then have 2: "\<not> before y z" using Cons.prems(2) by (simp add: zs)
    from sets have "z \<in> set (y # ys)" by auto
    with Cons.prems(4) ne have "before z y \<or> before y z" by auto
    with 1 2 show False by blast
  qed
  moreover have "zs' = ys"
  proof (rule Cons.IH)
    show "sorted_wrt (\<lambda>a b. \<not> before b a) ys" using Cons.prems(1) by simp
    show "sorted_wrt (\<lambda>a b. \<not> before b a) zs'" using Cons.prems(2) by (simp add: zs)
    show "mset zs' = mset ys" using Cons.prems(3) \<open>z = y\<close> by (simp add: zs)
    show "\<forall>a \<in> set ys. \<forall>b \<in> set ys. a \<noteq> b \<longrightarrow> before a b \<or> before b a"
      using Cons.prems(4) by simp
  qed
  ultimately show ?case by (simp add: zs)
qed

lemma sort_result_idem:
  assumes "sort_result before xs ys" and "sort_result before ys zs"
    and "\<forall>a \<in> set xs. \<forall>b \<in> set xs. a \<noteq> b \<longrightarrow> before a b \<or> before b a"
  shows "zs = ys"
proof -
  have "set ys = set xs" using assms(1) by (auto simp: sort_result_def dest: mset_eq_setD)
  with assms show ?thesis
    by (intro sorted_unique [of before]) (simp_all add: sort_result_def)
qed

text \<open>
  C1 (as the claim states it). The comparator is not a strict total order: an entry
  named \<open>..\<close> compares before itself, and two different files of one owner are not
  ordered either way by the owner column. For such a pair both arrangements are results
  that \<^verbatim>\<open>std::sort\<close> may return, so sorting the sorted sequence again may change it.
\<close>

theorem cmp_not_strict_total_counterexample:
  "cmp 0 False (listed ''..'' True 0 ''root'') (listed ''..'' True 0 ''root'') \<and>
   listed ''a'' False 1 ''root'' \<noteq> listed ''b'' False 2 ''root'' \<and>
   \<not> cmp 4 False (listed ''a'' False 1 ''root'') (listed ''b'' False 2 ''root'') \<and>
   \<not> cmp 4 False (listed ''b'' False 2 ''root'') (listed ''a'' False 1 ''root'') \<and>
   sort_result (cmp 4 False)
     [listed ''a'' False 1 ''root'', listed ''b'' False 2 ''root'']
     [listed ''a'' False 1 ''root'', listed ''b'' False 2 ''root''] \<and>
   sort_result (cmp 4 False)
     [listed ''a'' False 1 ''root'', listed ''b'' False 2 ''root'']
     [listed ''b'' False 2 ''root'', listed ''a'' False 1 ''root''] \<and>
   [listed ''b'' False 2 ''root'', listed ''a'' False 1 ''root''] \<noteq>
   [listed ''a'' False 1 ''root'', listed ''b'' False 2 ''root'']"
  by (simp add: cmp_def listed_def sort_result_def)

text \<open>
  C1 (amended). For every sort column and either value of the toggle, the comparator
  is a strict weak order on the entries not named \<open>..\<close>: no entry compares before
  itself, it is transitive, and not being ordered either way is transitive (entries
  with equal keys in the column tie). A directory compares before a file, an entry named
  \<open>..\<close> compares before every entry with another name and none of these before it.
  In the name column two entries with different names are always ordered. Whenever no
  two different entries of a sequence tie, sorting a sorted result again returns the
  same sequence.
\<close>

theorem cmp_strict_weak_order:
  "(name_' a \<noteq> ''..'' \<longrightarrow> \<not> cmp c d a a) \<and>
   (name_' a \<noteq> ''..'' \<and> name_' b \<noteq> ''..'' \<and> name_' x \<noteq> ''..'' \<and>
      cmp c d a b \<and> cmp c d b x \<longrightarrow> cmp c d a x) \<and>
   (name_' a \<noteq> ''..'' \<and> name_' b \<noteq> ''..'' \<and> name_' x \<noteq> ''..'' \<and>
      \<not> cmp c d a b \<and> \<not> cmp c d b a \<and> \<not> cmp c d b x \<and> \<not> cmp c d x b \<longrightarrow>
      \<not> cmp c d a x \<and> \<not> cmp c d x a) \<and>
   (name_' a = ''..'' \<and> name_' b \<noteq> ''..'' \<longrightarrow> cmp c d a b \<and> \<not> cmp c d b a) \<and>
   (name_' a \<noteq> ''..'' \<and> name_' b \<noteq> ''..'' \<and> isDir_' a \<and> \<not> isDir_' b \<longrightarrow>
      cmp c d a b \<and> \<not> cmp c d b a) \<and>
   (c = 0 \<and> name_' a \<noteq> name_' b \<longrightarrow> cmp c d a b \<or> cmp c d b a) \<and>
   (sort_result (cmp c d) xs ys \<and> sort_result (cmp c d) ys zs \<and>
      (\<forall>a \<in> set xs. \<forall>b \<in> set xs. a \<noteq> b \<longrightarrow> cmp c d a b \<or> cmp c d b a) \<longrightarrow> zs = ys)"
proof -
  have irrefl: "name_' a \<noteq> ''..'' \<longrightarrow> \<not> cmp c d a a"
    by (simp add: cmp_irrefl)
  have trans: "name_' a \<noteq> ''..'' \<and> name_' b \<noteq> ''..'' \<and> name_' x \<noteq> ''..'' \<and>
      cmp c d a b \<and> cmp c d b x \<longrightarrow> cmp c d a x"
    using cmp_trans by blast
  have incomp: "name_' a \<noteq> ''..'' \<and> name_' b \<noteq> ''..'' \<and> name_' x \<noteq> ''..'' \<and>
      \<not> cmp c d a b \<and> \<not> cmp c d b a \<and> \<not> cmp c d b x \<and> \<not> cmp c d x b \<longrightarrow>
      \<not> cmp c d a x \<and> \<not> cmp c d x a"
    using cmp_negtrans [of a x b c d] cmp_negtrans [of x a b c d] by blast
  have parent: "name_' a = ''..'' \<and> name_' b \<noteq> ''..'' \<longrightarrow> cmp c d a b \<and> \<not> cmp c d b a"
    by (simp add: cmp_dotdot_first cmp_before_dotdot)
  have dirs: "name_' a \<noteq> ''..'' \<and> name_' b \<noteq> ''..'' \<and> isDir_' a \<and> \<not> isDir_' b \<longrightarrow>
      cmp c d a b \<and> \<not> cmp c d b a"
    using cmp_dirs_first by blast
  have names: "c = 0 \<and> name_' a \<noteq> name_' b \<longrightarrow> cmp c d a b \<or> cmp c d b a"
    using cmp_name_total [of 0 a b d] by auto
  have idem: "sort_result (cmp c d) xs ys \<and> sort_result (cmp c d) ys zs \<and>
      (\<forall>a \<in> set xs. \<forall>b \<in> set xs. a \<noteq> b \<longrightarrow> cmp c d a b \<or> cmp c d b a) \<longrightarrow> zs = ys"
    using sort_result_idem [of "cmp c d" xs ys zs] by blast
  show ?thesis
    using irrefl trans incomp parent dirs names idem by blast
qed

theorem cmp_strict_weak_order_witness:
  "\<not> cmp 1 False (listed ''docs'' True 4096 ''root'') (listed ''docs'' True 4096 ''root'') \<and>
   cmp 1 False (listed ''docs'' True 4096 ''root'') (listed ''big'' False 9 ''root'') \<and>
   cmp 1 False (listed ''big'' False 9 ''root'') (listed ''small'' False 3 ''root'') \<and>
   cmp 1 False (listed ''docs'' True 4096 ''root'') (listed ''small'' False 3 ''root'') \<and>
   \<not> cmp 1 False (listed ''big'' False 9 ''root'') (listed ''docs'' True 4096 ''root'') \<and>
   \<not> cmp 4 False (listed ''a'' False 1 ''root'') (listed ''c'' False 3 ''root'') \<and>
   \<not> cmp 4 False (listed ''c'' False 3 ''root'') (listed ''a'' False 1 ''root'') \<and>
   cmp 4 True (listed ''..'' True 0 []) (listed ''docs'' True 4096 ''root'') \<and>
   \<not> cmp 4 True (listed ''docs'' True 4096 ''root'') (listed ''..'' True 0 []) \<and>
   cmp 0 False (listed ''b'' False 2 ''root'') (listed ''a'' False 1 ''root'') \<and>
   sort_result (cmp 1 False)
     [listed ''small'' False 3 ''root'', listed ''docs'' True 4096 ''root'', listed ''big'' False 9 ''root'']
     [listed ''docs'' True 4096 ''root'', listed ''big'' False 9 ''root'', listed ''small'' False 3 ''root''] \<and>
   sort_result (cmp 1 False)
     [listed ''docs'' True 4096 ''root'', listed ''big'' False 9 ''root'', listed ''small'' False 3 ''root'']
     [listed ''docs'' True 4096 ''root'', listed ''big'' False 9 ''root'', listed ''small'' False 3 ''root'']"
  using
    cmp_strict_weak_order [of "listed ''docs'' True 4096 ''root''" 1 False
      "listed ''big'' False 9 ''root''" "listed ''small'' False 3 ''root''"
      "[listed ''small'' False 3 ''root'', listed ''docs'' True 4096 ''root'', listed ''big'' False 9 ''root'']"
      "[listed ''docs'' True 4096 ''root'', listed ''big'' False 9 ''root'', listed ''small'' False 3 ''root'']"
      "[listed ''docs'' True 4096 ''root'', listed ''big'' False 9 ''root'', listed ''small'' False 3 ''root'']"]
    cmp_strict_weak_order [of "listed ''a'' False 1 ''root''" 4 False
      "listed ''b'' False 2 ''root''" "listed ''c'' False 3 ''root''"]
    cmp_strict_weak_order [of "listed ''..'' True 0 []" 4 True "listed ''docs'' True 4096 ''root''"]
    cmp_strict_weak_order [of "listed ''b'' False 2 ''root''" 0 False "listed ''a'' False 1 ''root''"]
  by (simp add: cmp_def listed_def sort_result_def)

end
